theory Spec2Isabelle
  imports Complex_Main
begin

section \<open>JavaScript values\<close>

text \<open>
  The values that travel through \<^verbatim>\<open>unfollow.js\<close>: parsed JSON bodies of HTTP responses,
  environment variables, and what property access yields on them. Numbers are integers
  or \<open>NaN\<close>; fractional numbers are not represented. An object is the list of its
  own properties.
\<close>

datatype jsval =
    Undefined
  | Null
  | Bool bool
  | Num int
  | NaN
  | Str string
  | Arr "jsval list"
  | Obj "(string \<times> jsval) list"

text \<open>\<^verbatim>\<open>!v\<close> is \<open>\<not> truthy v\<close>.\<close>

fun truthy :: "jsval \<Rightarrow> bool" where
  "truthy Undefined = False"
| "truthy Null = False"
| "truthy (Bool b) = b"
| "truthy (Num n) = (n \<noteq> 0)"
| "truthy NaN = False"
| "truthy (Str s) = (s \<noteq> [])"
| "truthy (Arr _) = True"
| "truthy (Obj _) = True"

text \<open>
  A template literal is kept as its parts: literal text, an interpolated value
  (\<^verbatim>\<open>${v}\<close>), the \<^verbatim>\<open>JSON.stringify\<close> of a value, and \<^verbatim>\<open>fids.join(sep)\<close>. The
  conversion of the values to text is not modelled; the terminal colour escapes of the
  logger and of the prompt are left out.
\<close>

datatype part = S string | V jsval | J jsval | Joined "jsval list" string

type_synonym message = "part list"

record response =
  status :: int
  data :: jsval

text \<open>
  What a \<^verbatim>\<open>catch\<close> block can receive: the error axios rejects with (its \<^verbatim>\<open>response\<close>
  is present when the server answered with a failure status, absent on a network
  failure), an \<^verbatim>\<open>Error\<close> thrown by the script, and the \<^verbatim>\<open>TypeError\<close> of the runtime.
\<close>

datatype error =
    AxiosError "response option" message
  | Error message
  | TypeError message

fun error_response :: "error \<Rightarrow> response option" where
  "error_response (AxiosError r _) = r"
| "error_response (Error _) = None"
| "error_response (TypeError _) = None"

fun error_message :: "error \<Rightarrow> message" where
  "error_message (AxiosError _ m) = m"
| "error_message (Error m) = m"
| "error_message (TypeError m) = m"

text \<open>
  Property access \<^verbatim>\<open>v.k\<close>: a \<^verbatim>\<open>TypeError\<close> on \<^verbatim>\<open>undefined\<close> and \<^verbatim>\<open>null\<close>, the
  property or \<^verbatim>\<open>undefined\<close> on an object, \<^verbatim>\<open>undefined\<close> on the other values (none of
  the property names the script reads is a built-in property of a primitive or an array).
\<close>

fun get_prop :: "jsval \<Rightarrow> string \<Rightarrow> error + jsval" where
  "get_prop Undefined k =
     Inl (TypeError [S ''Cannot read properties of undefined (reading '', S k, S '')''])"
| "get_prop Null k =
     Inl (TypeError [S ''Cannot read properties of null (reading '', S k, S '')''])"
| "get_prop (Obj kvs) k = Inr (case map_of kvs k of None \<Rightarrow> Undefined | Some v \<Rightarrow> v)"
| "get_prop _ k = Inr Undefined"

text \<open>\<^verbatim>\<open>xs.map(f)\<close> where \<open>f\<close> may throw: the first exception ends the traversal.\<close>

fun map_throwing :: "('a \<Rightarrow> error + 'b) \<Rightarrow> 'a list \<Rightarrow> error + 'b list" where
  "map_throwing f [] = Inr []"
| "map_throwing f (x # xs) =
     (case f x of
        Inl e \<Rightarrow> Inl e
      | Inr y \<Rightarrow> (case map_throwing f xs of Inl e \<Rightarrow> Inl e | Inr ys \<Rightarrow> Inr (y # ys)))"

text \<open>\<^verbatim>\<open>v.map(f)\<close> on a value that came out of JSON: only an array has a \<^verbatim>\<open>map\<close> method.\<close>

fun array_map :: "(jsval \<Rightarrow> error + jsval) \<Rightarrow> jsval \<Rightarrow> error + jsval list" where
  "array_map f (Arr rows) = map_throwing f rows"
| "array_map f Undefined =
     Inl (TypeError [S ''Cannot read properties of undefined (reading '', S ''map'', S '')''])"
| "array_map f Null =
     Inl (TypeError [S ''Cannot read properties of null (reading '', S ''map'', S '')''])"
| "array_map f _ = Inl (TypeError [S ''resultsResponse.data.result.rows.map is not a function''])"

text \<open>\<^verbatim>\<open>String.prototype.toLowerCase\<close> on the ASCII letters; other characters are kept.\<close>

definition toLower_char :: "char \<Rightarrow> char" where
  "toLower_char c =
     (let n = (of_char c :: nat) in if 65 \<le> n \<and> n \<le> 90 then char_of (n + 32) else c)"

definition toLowerCase :: "string \<Rightarrow> string" where
  "toLowerCase s = map toLower_char s"

text \<open>\<^verbatim>\<open>xs.slice(b, e)\<close> for indices \<open>0 \<le> b\<close>, \<open>0 \<le> e\<close>: both are clamped to the length.\<close>

definition slice :: "'a list \<Rightarrow> nat \<Rightarrow> nat \<Rightarrow> 'a list" where
  "slice xs b e = take (e - b) (drop b xs)"

section \<open>Configuration, requests and the trace of effects\<close>

text \<open>An environment variable is absent or a string.\<close>

record env =
  DUNE_API_KEY :: "string option"
  NEYNAR_API_KEY :: "string option"
  FARCASTER_SIGNER_UUID :: "string option"
  TARGET_FID :: "string option"

fun of_env :: "string option \<Rightarrow> jsval" where
  "of_env None = Undefined"
| "of_env (Some s) = Str s"

definition DUNE_QUERY_ID :: int where
  "DUNE_QUERY_ID = 3533118"

text \<open>
  The four HTTP calls of the script, each with what the script puts into it:
  \<^item> \<open>DuneExecute key id p\<close>: \<^verbatim>\<open>POST {DUNE_API_URL}/query/{id}/execute\<close> with header
    \<^verbatim>\<open>X-DUNE-API-KEY: key\<close> and body \<^verbatim>\<open>{query_parameters: {fid_t90e29: p}}\<close>;
  \<^item> \<open>DuneStatus key x\<close>: \<^verbatim>\<open>GET {DUNE_API_URL}/execution/{x}/status\<close>;
  \<^item> \<open>DuneResults key x\<close>: \<^verbatim>\<open>GET {DUNE_API_URL}/execution/{x}/results\<close>;
  \<^item> \<open>NeynarUnfollow key signer fids\<close>: \<^verbatim>\<open>DELETE {NEYNAR_API_URL}/user/follow\<close> with header
    \<^verbatim>\<open>api_key: key\<close> and body \<^verbatim>\<open>{signer_uuid: signer, target_fids: fids}\<close>.
\<close>

datatype request =
    DuneExecute "string option" int jsval
  | DuneStatus "string option" jsval
  | DuneResults "string option" jsval
  | NeynarUnfollow "string option" "string option" "jsval list"

datatype level = INFO | WARN | ERROR | SUCCESS

text \<open>
  Everything the script does to the outside, in the order it does it: a line on the
  console, a line of the logger \<^verbatim>\<open>log\<close>, an HTTP request, a \<^verbatim>\<open>sleep(ms)\<close>, and the
  prompt of \<^verbatim>\<open>readlineSync.question\<close>.
\<close>

datatype event =
    Console message
  | Log level message
  | Request request
  | Sleep nat
  | Question message

type_synonym trace = "event list"

fun requests_of :: "trace \<Rightarrow> request list" where
  "requests_of [] = []"
| "requests_of (Request r # tr) = r # requests_of tr"
| "requests_of (_ # tr) = requests_of tr"

text \<open>
  What the script does not contain is a parameter: \<open>axios\<close> gives the outcome of the
  \<open>n\<close>-th request of the run (\<open>n\<close> counts the requests issued before it), a response
  or the error the promise rejects with; \<open>Number\<close> is JavaScript's conversion
  \<^verbatim>\<open>Number(v)\<close>; \<open>event_loop\<close> is the order in which things happen while several
  requests await their outcome: given the numbers of those requests, oldest first, and
  the number of tasks that have ended without the limiter having taken note, it chooses
  the next turn.
\<close>

datatype turn = Response nat | Next

record runtime =
  axios :: "nat \<Rightarrow> request \<Rightarrow> error + response"
  Number :: "jsval \<Rightarrow> jsval"
  event_loop :: "nat list \<Rightarrow> nat \<Rightarrow> turn"

definition http :: "runtime \<Rightarrow> request \<Rightarrow> trace \<Rightarrow> (error + response) \<times> trace" where
  "http rt req tr = (axios rt (length (requests_of tr)) req, tr @ [Request req])"

text \<open>
  The body shared by both \<^verbatim>\<open>catch\<close> blocks:
  \<^verbatim>\<open>if (error.response) log.error(`Status: ... - ...`) else log.error(error.message)\<close>.
\<close>

definition error_detail :: "error \<Rightarrow> message" where
  "error_detail e =
     (case error_response e of
        Some r \<Rightarrow> [S ''Status: '', V (Num (status r)), S '' - '', J (data r)]
      | None \<Rightarrow> error_message e)"

section \<open>The Query Runner: \<^verbatim>\<open>fetchFidsToUnfollow\<close>\<close>

text \<open>
  The polling loop \<^verbatim>\<open>do { ... } while (status.state !== 'QUERY_STATE_COMPLETED')\<close>. The
  source puts no bound on the number of rounds, so the loop is a partial function: a run
  that polls forever has the value \<open>None\<close>.
\<close>

partial_function (option) poll_status ::
  "runtime \<Rightarrow> env \<Rightarrow> jsval \<Rightarrow> trace \<Rightarrow> ((error + unit) \<times> trace) option" where
  "poll_status rt ev executionId tr =
     (case http rt (DuneStatus (DUNE_API_KEY ev) executionId) (tr @ [Sleep 3000]) of
        (Inl e, tr1) \<Rightarrow> Some (Inl e, tr1)
      | (Inr statusResponse, tr1) \<Rightarrow>
          (case get_prop (data statusResponse) ''state'' of
             Inl e \<Rightarrow> Some (Inl e, tr1)
           | Inr state \<Rightarrow>
               if state = Str ''QUERY_STATE_FAILED''
               then (case get_prop (data statusResponse) ''error'' of
                       Inl e \<Rightarrow> Some (Inl e, tr1)
                     | Inr err \<Rightarrow> Some (Inl (Error [S ''Dune query failed: '', V err]), tr1))
               else if state \<noteq> Str ''QUERY_STATE_COMPLETED''
                    then poll_status rt ev executionId
                           (tr1 @ [Log INFO [S ''Query state: '', V state, S ''...'']])
                    else Some (Inr (), tr1 @ [Log INFO [S ''Query state: '', V state, S ''...'']])))"

declare poll_status.simps [code]

text \<open>\<^verbatim>\<open>resultsResponse.data.result.rows.map(row => row.profile_id)\<close>\<close>

definition extract_fids :: "jsval \<Rightarrow> error + jsval list" where
  "extract_fids d =
     (case get_prop d ''result'' of
        Inl e \<Rightarrow> Inl e
      | Inr result \<Rightarrow>
          (case get_prop result ''rows'' of
             Inl e \<Rightarrow> Inl e
           | Inr rows \<Rightarrow> array_map (\<lambda>row. get_prop row ''profile_id'') rows))"

text \<open>
  The \<^verbatim>\<open>try\<close> block, in the three steps the source numbers; \<open>Inl e\<close> is the exception
  \<open>e\<close> leaving the block. Step 1, \<^verbatim>\<open>// 1. Start query execution\<close>:
\<close>

definition start_execution :: "runtime \<Rightarrow> env \<Rightarrow> trace \<Rightarrow> (error + jsval) \<times> trace" where
  "start_execution rt ev tr =
     (case http rt (DuneExecute (DUNE_API_KEY ev) DUNE_QUERY_ID
                      (Number rt (of_env (TARGET_FID ev)))) tr of
        (Inl e, tr1) \<Rightarrow> (Inl e, tr1)
      | (Inr executeResponse, tr1) \<Rightarrow>
          (case get_prop (data executeResponse) ''execution_id'' of
             Inl e \<Rightarrow> (Inl e, tr1)
           | Inr executionId \<Rightarrow>
               if \<not> truthy executionId
               then (Inl (Error [S ''Failed to get execution ID from Dune.'']), tr1)
               else (Inr executionId,
                     tr1 @ [Log INFO [S ''Dune execution started with ID: '', V executionId,
                                      S ''. Waiting for results...'']])))"

text \<open>Step 3, \<^verbatim>\<open>// 3. Fetch final results\<close>:\<close>

definition fetch_results ::
  "runtime \<Rightarrow> env \<Rightarrow> jsval \<Rightarrow> trace \<Rightarrow> (error + jsval list) \<times> trace" where
  "fetch_results rt ev executionId tr =
     (case http rt (DuneResults (DUNE_API_KEY ev) executionId) tr of
        (Inl e, tr1) \<Rightarrow> (Inl e, tr1)
      | (Inr resultsResponse, tr1) \<Rightarrow>
          (case extract_fids (data resultsResponse) of
             Inl e \<Rightarrow> (Inl e, tr1)
           | Inr fids \<Rightarrow>
               (Inr fids, tr1 @ [Log SUCCESS [S ''Found '', V (Num (int (length fids))),
                                              S '' FIDs to unfollow.'']])))"

text \<open>The three steps in sequence; step 2 is \<open>poll_status\<close>.\<close>

definition fetch_try ::
  "runtime \<Rightarrow> env \<Rightarrow> trace \<Rightarrow> ((error + jsval list) \<times> trace) option" where
  "fetch_try rt ev tr =
     (case start_execution rt ev tr of
        (Inl e, tr1) \<Rightarrow> Some (Inl e, tr1)
      | (Inr executionId, tr1) \<Rightarrow>
          (case poll_status rt ev executionId tr1 of
             None \<Rightarrow> None
           | Some (Inl e, tr2) \<Rightarrow> Some (Inl e, tr2)
           | Some (Inr _, tr2) \<Rightarrow> Some (fetch_results rt ev executionId tr2)))"

text \<open>The function: the \<^verbatim>\<open>try\<close> block under its \<^verbatim>\<open>catch\<close>, which returns \<^verbatim>\<open>[]\<close>.\<close>

definition fetchFidsToUnfollow ::
  "runtime \<Rightarrow> env \<Rightarrow> trace \<Rightarrow> (jsval list \<times> trace) option" where
  "fetchFidsToUnfollow rt ev tr =
     (case fetch_try rt ev
             (tr @ [Log INFO [S ''Executing Dune query (ID: '', V (Num DUNE_QUERY_ID),
                              S '') for target FID: '', V (of_env (TARGET_FID ev)), S ''...'']]) of
        None \<Rightarrow> None
      | Some (Inr fids, tr1) \<Rightarrow> Some (fids, tr1)
      | Some (Inl e, tr1) \<Rightarrow>
          Some ([], tr1 @ [Log ERROR [S ''Error fetching data from Dune API.''],
                           Log ERROR (error_detail e)]))"

section \<open>The Batch Actuator: \<^verbatim>\<open>unfollowFids\<close>\<close>

definition batchSize :: nat where
  "batchSize = 100"

text \<open>
  \<^verbatim>\<open>for (let i = 0; i < fids.length; i += batchSize) batches.push(fids.slice(i, i + batchSize))\<close>
\<close>

function batches_loop :: "'a list \<Rightarrow> nat \<Rightarrow> 'a list list \<Rightarrow> 'a list list" where
  "batches_loop fids i batches =
     (if i < length fids
      then batches_loop fids (i + batchSize) (batches @ [slice fids i (i + batchSize)])
      else batches)"
  by pat_completeness auto
termination
  by (relation "measure (\<lambda>(fids, i, batches). length fids - i)") (auto simp: batchSize_def)

definition make_batches :: "'a list \<Rightarrow> 'a list list" where
  "make_batches fids = batches_loop fids 0 []"

definition unfollow_request :: "env \<Rightarrow> jsval list \<Rightarrow> request" where
  "unfollow_request ev batch = NeynarUnfollow (NEYNAR_API_KEY ev) (FARCASTER_SIGNER_UUID ev) batch"

text \<open>
  The function given to \<^verbatim>\<open>limit\<close>, for the batch at \<open>index\<close>, runs in two parts. Up to
  its \<^verbatim>\<open>await\<close> it writes its first line and calls \<^verbatim>\<open>axios.delete\<close>:
\<close>

definition batch_begin :: "env \<Rightarrow> nat \<Rightarrow> jsval list \<Rightarrow> nat \<Rightarrow> trace \<Rightarrow> trace" where
  "batch_begin ev nbatches batch index tr =
     tr @ [Log INFO [S ''Processing batch '', V (Num (int index + 1)), S ''/'',
                     V (Num (int nbatches)), S '' with '', V (Num (int (length batch))),
                     S '' FIDs...''],
           Request (unfollow_request ev batch)]"

text \<open>
  It goes on when its request has its \<open>outcome\<close>, the response or the error of the
  rejected promise. The rest of the \<^verbatim>\<open>try\<close> block:
\<close>

definition batch_try :: "nat \<Rightarrow> error + response \<Rightarrow> trace \<Rightarrow> (error + unit) \<times> trace" where
  "batch_try index outcome tr =
     (case outcome of
        Inl e \<Rightarrow> (Inl e, tr)
      | Inr response \<Rightarrow>
          (case get_prop (data response) ''success'' of
             Inl e \<Rightarrow> (Inl e, tr)
           | Inr ok \<Rightarrow>
               if truthy ok
               then (Inr (), tr @ [Log SUCCESS [S ''Batch '', V (Num (int index + 1)),
                                                S '' processed successfully.'']])
               else (Inr (), tr @ [Log WARN [S ''Batch '', V (Num (int index + 1)),
                                             S '' processed with issues.'']])))"

text \<open>The rest of the function: the rest of the \<^verbatim>\<open>try\<close> block under its \<^verbatim>\<open>catch\<close>.\<close>

definition unfollow_batch :: "nat \<Rightarrow> error + response \<Rightarrow> trace \<Rightarrow> (error + unit) \<times> trace" where
  "unfollow_batch index outcome tr =
     (case batch_try index outcome tr of
        (Inr u, tr1) \<Rightarrow> (Inr u, tr1)
      | (Inl e, tr1) \<Rightarrow>
          (Inr (), tr1 @ [Log ERROR [S ''Failed to process batch '', V (Num (int index + 1)), S ''.''],
                          Log ERROR (error_detail e)]))"

text \<open>
  \<^verbatim>\<open>const limit = pLimit(5)\<close>. The limiter of the \<^verbatim>\<open>p-limit\<close> package keeps the tasks in
  the order they were given, starts one when fewer than \<open>concurrency\<close> are active, and
  starts the next one queued when an active one has ended. A task queued is its index
  and its batch; a task awaiting its response is its index, its batch and the number of
  its request in the run.
\<close>

definition concurrency :: nat where
  "concurrency = 5"

type_synonym queued = "nat \<times> jsval list"

type_synonym awaiting = "nat \<times> jsval list \<times> nat"

text \<open>Starting the first task queued, if there is one: it runs up to its \<^verbatim>\<open>await\<close>.\<close>

fun start_task ::
  "env \<Rightarrow> nat \<Rightarrow> queued list \<times> awaiting list \<times> trace \<Rightarrow> queued list \<times> awaiting list \<times> trace" where
  "start_task ev nbatches ([], active, tr) = ([], active, tr)"
| "start_task ev nbatches ((index, batch) # queue, active, tr) =
     (queue, active @ [(index, batch, length (requests_of tr))],
      batch_begin ev nbatches batch index tr)"

text \<open>
  \<^verbatim>\<open>batches.map((batch, index) => limit(...))\<close> runs before anything else: each call of
  \<^verbatim>\<open>limit\<close> queues its task and, once the calls are done, looks whether a task can start.
  So the first tasks, up to \<open>concurrency\<close> of them, each write their first line and send
  their request before any response is handled.
\<close>

fun limit ::
  "env \<Rightarrow> nat \<Rightarrow> queued list \<times> awaiting list \<times> trace \<Rightarrow> queued list \<times> awaiting list \<times> trace" where
  "limit ev nbatches (queue, active, tr) =
     (if length active < concurrency
      then start_task ev nbatches (queue, active, tr)
      else (queue, active, tr))"

text \<open>
  What the event loop does next while requests await their responses, which the run
  time decides: \<open>Response k\<close>, the outcome of the request at position \<open>k\<close> among those
  awaited arrives and its task runs to its end; or \<open>Next\<close>, the limiter takes note that
  a task has ended and starts the next one queued. A response can only be handled
  when one is awaited, and \<open>Next\<close> can only follow the end of a task; when nothing is
  awaited the tasks still queued are started.
\<close>

definition next_turn :: "runtime \<Rightarrow> awaiting list \<Rightarrow> nat \<Rightarrow> turn" where
  "next_turn rt active ended =
     (if active = [] then Next
      else
        (case event_loop rt (map (\<lambda>(index, batch, n). n) active) ended of
           Response k \<Rightarrow> Response (k mod length active)
         | Next \<Rightarrow> if ended = 0 then Response 0 else Next))"

text \<open>
  \<^verbatim>\<open>await Promise.all(unfollowPromises)\<close>: the turns of the event loop until every task
  has ended. \<open>ended\<close> counts the tasks that have ended and that the limiter has not yet
  taken note of. A promise that rejects makes \<^verbatim>\<open>Promise.all\<close> reject, and the function
  is left with the error at that point.
\<close>

function promise_all ::
  "runtime \<Rightarrow> env \<Rightarrow> nat \<Rightarrow> queued list \<Rightarrow> awaiting list \<Rightarrow> nat \<Rightarrow> trace \<Rightarrow>
   (error + unit) \<times> trace" where
  "promise_all rt ev nbatches queue active ended tr =
     (if queue = [] \<and> active = [] then (Inr (), tr)
      else
        (case next_turn rt active ended of
           Next \<Rightarrow>
             (case start_task ev nbatches (queue, active, tr) of
                (queue', active', tr1) \<Rightarrow> promise_all rt ev nbatches queue' active' (ended - 1) tr1)
         | Response k \<Rightarrow>
             (case active ! k of
                (index, batch, n) \<Rightarrow>
                  (case unfollow_batch index (axios rt n (unfollow_request ev batch)) tr of
                     (Inl e, tr1) \<Rightarrow> (Inl e, tr1)
                   | (Inr _, tr1) \<Rightarrow>
                       promise_all rt ev nbatches queue (take k active @ drop (Suc k) active)
                         (Suc ended) tr1))))"
  by pat_completeness auto

text \<open>Every turn ends a task or starts one, so the turns come to an end.\<close>

lemma next_turn_Next: "next_turn rt active ended = Next \<Longrightarrow> active = [] \<or> 0 < ended"
  by (auto simp: next_turn_def split: if_splits turn.splits)

lemma next_turn_Response: "next_turn rt active ended = Response k \<Longrightarrow> k < length active"
  by (auto simp: next_turn_def split: if_splits turn.splits)

lemma start_task_measure:
  assumes "start_task ev nbatches (queue, active, tr) = (queue', active', tr1)"
  shows "3 * length queue' + 2 * length active' \<le> 3 * length queue + 2 * length active"
    and "queue \<noteq> [] \<Longrightarrow> 3 * length queue' + 2 * length active' < 3 * length queue + 2 * length active"
  using assms by (cases queue; auto)+

termination promise_all
proof (relation "measure (\<lambda>(rt, ev, nbatches, queue, active, ended, tr).
                   3 * length queue + 2 * length active + ended)", goal_cases)
  case 1
  then show ?case by simp
next
  case (2 rt ev nbatches queue active ended tr k)
  from 2(2) have "k < length active" by (rule next_turn_Response)
  then show ?case by (simp add: min_absorb2)
next
  case (3 rt ev nbatches queue active ended tr queue' rest active' tr1)
  from 3(2) have "active = [] \<or> 0 < ended" by (rule next_turn_Next)
  moreover from 3(3,4) have st: "start_task ev nbatches (queue, active, tr) = (queue', active', tr1)"
    by simp
  ultimately show ?case
    using 3(1) start_task_measure[OF st] by (cases "queue = []") auto
qed

definition unfollowFids ::
  "runtime \<Rightarrow> env \<Rightarrow> jsval list \<Rightarrow> trace \<Rightarrow> (error + unit) \<times> trace" where
  "unfollowFids rt ev fids tr =
     (if length fids = 0
      then (Inr (), tr @ [Log WARN [S ''No FIDs to unfollow. Exiting.'']])
      else
        (let batches = make_batches fids in
         case (limit ev (length batches) ^^ length batches)
                (enumerate 0 batches, [],
                 tr @ [Log INFO [S ''Preparing to unfollow '', V (Num (int (length fids))),
                                 S '' users.''],
                       Log INFO [S ''Splitting into '', V (Num (int (length batches))),
                                 S '' batch(es).'']]) of
           (queue, active, tr1) \<Rightarrow>
             (case promise_all rt ev (length batches) queue active 0 tr1 of
                (Inl e, tr2) \<Rightarrow> (Inl e, tr2)
              | (Inr _, tr2) \<Rightarrow>
                  (Inr (), tr2 @ [Log SUCCESS [S ''All unfollow operations completed.'']]))))"

section \<open>The workflow: \<^verbatim>\<open>main\<close>\<close>

text \<open>
  The condition of the startup check,
  \<^verbatim>\<open>!DUNE_API_KEY || !NEYNAR_API_KEY || !FARCASTER_SIGNER_UUID || !TARGET_FID\<close>.
\<close>

definition env_missing :: "env \<Rightarrow> bool" where
  "env_missing ev =
     (\<not> truthy (of_env (DUNE_API_KEY ev)) \<or> \<not> truthy (of_env (NEYNAR_API_KEY ev)) \<or>
      \<not> truthy (of_env (FARCASTER_SIGNER_UUID ev)) \<or> \<not> truthy (of_env (TARGET_FID ev)))"

text \<open>
  The workflow. \<open>answer\<close> is the string \<^verbatim>\<open>readlineSync.question\<close> returns. An array
  is truthy, so \<^verbatim>\<open>fids && fids.length > 0\<close> is \<^verbatim>\<open>fids.length > 0\<close>. The result is
  \<open>None\<close> when the Query Runner polls forever.
\<close>

definition main ::
  "runtime \<Rightarrow> env \<Rightarrow> string \<Rightarrow> trace \<Rightarrow> ((error + unit) \<times> trace) option" where
  "main rt ev answer tr =
     (let tr0 = tr @ [Console [S ''--- Farcaster Follower Audit & Unfollow Script ---'']] in
      if env_missing ev
      then Some (Inr (), tr0 @ [Log ERROR [S ''One or more required environment variables are missing.''],
                                Log ERROR [S ''Please check your .env file.'']])
      else
        (case fetchFidsToUnfollow rt ev tr0 of
           None \<Rightarrow> None
         | Some (fids, tr1) \<Rightarrow>
             if length fids > 0
             then
               (let tr2 = tr1 @ [Console [S ''\<newline>--- FIDs to Unfollow ---''],
                                 Console [Joined fids '', ''],
                                 Console [S ''---''],
                                 Question [S ''\<newline>[CONFIRMATION] Do you want to unfollow these '',
                                           V (Num (int (length fids))), S '' users? (yes/no): '']] in
                if toLowerCase answer = ''yes''
                then Some (unfollowFids rt ev fids tr2)
                else Some (Inr (), tr2 @ [Log INFO [S ''Unfollow action cancelled by user.'']]))
             else Some (Inr (), tr1 @ [Log INFO [S ''No FIDs flagged for unfollowing based on the Dune query.'']])))"

section \<open>Describing a run\<close>

text \<open>
  The words the statements below use for what the services answered in a run. The
  submission is the request \<open>execute_request\<close>; it is \<open>accepted\<close> with a job handle when
  the \<open>n\<close>-th request of the run, the submission, is answered with a body whose
  \<^verbatim>\<open>execution_id\<close> is truthy. \<open>poll_reply\<close> is what the status request sent as \<open>n\<close>-th
  request reports, and \<open>pending n k\<close> says that the \<open>k\<close> status requests from the \<open>n\<close>-th
  on report a state that is neither the failed nor the completed one.
\<close>

definition execute_request :: "runtime \<Rightarrow> env \<Rightarrow> request" where
  "execute_request rt ev =
     DuneExecute (DUNE_API_KEY ev) DUNE_QUERY_ID (Number rt (of_env (TARGET_FID ev)))"

definition accepted :: "runtime \<Rightarrow> env \<Rightarrow> nat \<Rightarrow> jsval \<Rightarrow> bool" where
  "accepted rt ev n executionId =
     (case axios rt n (execute_request rt ev) of
        Inl _ \<Rightarrow> False
      | Inr r \<Rightarrow> get_prop (data r) ''execution_id'' = Inr executionId \<and> truthy executionId)"

definition poll_reply :: "runtime \<Rightarrow> env \<Rightarrow> jsval \<Rightarrow> nat \<Rightarrow> error + jsval" where
  "poll_reply rt ev executionId n =
     (case axios rt n (DuneStatus (DUNE_API_KEY ev) executionId) of
        Inl e \<Rightarrow> Inl e
      | Inr r \<Rightarrow> get_prop (data r) ''state'')"

fun pending :: "runtime \<Rightarrow> env \<Rightarrow> jsval \<Rightarrow> nat \<Rightarrow> nat \<Rightarrow> bool" where
  "pending rt ev executionId n 0 = True"
| "pending rt ev executionId n (Suc k) =
     ((case poll_reply rt ev executionId n of
         Inl _ \<Rightarrow> False
       | Inr state \<Rightarrow> state \<noteq> Str ''QUERY_STATE_FAILED'' \<and> state \<noteq> Str ''QUERY_STATE_COMPLETED'') \<and>
      pending rt ev executionId (Suc n) k)"

text \<open>Lines of the trace that the statements name.\<close>

abbreviation executing_line :: "env \<Rightarrow> event" where
  "executing_line ev \<equiv>
     Log INFO [S ''Executing Dune query (ID: '', V (Num DUNE_QUERY_ID),
               S '') for target FID: '', V (of_env (TARGET_FID ev)), S ''...'']"

abbreviation caught_lines :: "error \<Rightarrow> event list" where
  "caught_lines e \<equiv>
     [Log ERROR [S ''Error fetching data from Dune API.''], Log ERROR (error_detail e)]"

text \<open>
  What the task of the batch at \<open>index\<close> writes once its request has its \<open>outcome\<close>.
\<close>

definition outcome_lines :: "nat \<Rightarrow> error + response \<Rightarrow> event list" where
  "outcome_lines index outcome = snd (unfollow_batch index outcome [])"

abbreviation failure_lines :: "nat \<Rightarrow> error \<Rightarrow> event list" where
  "failure_lines index e \<equiv>
     [Log ERROR [S ''Failed to process batch '', V (Num (int index + 1)), S ''.''],
      Log ERROR (error_detail e)]"

abbreviation banner :: event where
  "banner \<equiv> Console [S ''--- Farcaster Follower Audit & Unfollow Script ---'']"

abbreviation confirmation_lines :: "jsval list \<Rightarrow> event list" where
  "confirmation_lines fids \<equiv>
     [Console [S ''\<newline>--- FIDs to Unfollow ---''],
      Console [Joined fids '', ''],
      Console [S ''---''],
      Question [S ''\<newline>[CONFIRMATION] Do you want to unfollow these '',
                V (Num (int (length fids))), S '' users? (yes/no): '']]"

section \<open>Sample runs\<close>

text \<open>
  A configuration, an analytics service and a relationship service to run the model on:
  the query is accepted, its state is \<^verbatim>\<open>QUERY_STATE_EXECUTING\<close> at the first poll and
  \<^verbatim>\<open>QUERY_STATE_COMPLETED\<close> at the second, the result has two rows, the second without
  a \<^verbatim>\<open>profile_id\<close>, and every deletion succeeds. \<open>replying_at m reply\<close> changes the
  outcome of the \<open>m\<close>-th request of a run to \<open>reply\<close>. The conversion of the sample
  runtime is \<^verbatim>\<open>Number\<close> on the two strings the sample runs convert: \<^verbatim>\<open>Number('3')\<close> is
  \<open>3\<close> and \<^verbatim>\<open>Number('abc')\<close> is \<open>NaN\<close>. In its event loop the responses arrive one
  at a time, in the order of their requests, and the limiter runs after each.
  \<open>rows_with_null\<close> is a result body of three rows, the second of which is \<^verbatim>\<open>null\<close>.
\<close>

definition sample_env :: env where
  "sample_env = \<lparr>DUNE_API_KEY = Some ''dune-key'', NEYNAR_API_KEY = Some ''neynar-key'',
                  FARCASTER_SIGNER_UUID = Some ''signer-uuid'', TARGET_FID = Some ''3''\<rparr>"

definition ok :: "jsval \<Rightarrow> error + response" where
  "ok body = Inr \<lparr>status = 200, data = body\<rparr>"

definition sample_rows :: "jsval list" where
  "sample_rows = [Obj [(''profile_id'', Num 7)], Obj [(''fname'', Str ''bob'')]]"

definition sample_axios :: "nat \<Rightarrow> request \<Rightarrow> error + response" where
  "sample_axios n req =
     (case req of
        DuneExecute _ _ _ \<Rightarrow> ok (Obj [(''execution_id'', Str ''01HX'')])
      | DuneStatus _ _ \<Rightarrow>
          ok (Obj [(''state'', Str (if n < 2 then ''QUERY_STATE_EXECUTING''
                                   else ''QUERY_STATE_COMPLETED''))])
      | DuneResults _ _ \<Rightarrow> ok (Obj [(''result'', Obj [(''rows'', Arr sample_rows)])])
      | NeynarUnfollow _ _ _ \<Rightarrow> ok (Obj [(''success'', Bool True)]))"

definition server_error :: error where
  "server_error =
     AxiosError (Some \<lparr>status = 500, data = Obj [(''error'', Str ''internal'')]\<rparr>)
       [S ''Request failed with status code 500'']"

definition replying_at ::
  "nat \<Rightarrow> error + response \<Rightarrow> (nat \<Rightarrow> request \<Rightarrow> error + response) \<Rightarrow>
   nat \<Rightarrow> request \<Rightarrow> error + response" where
  "replying_at m reply f n req = (if n = m then reply else f n req)"

definition sample_runtime :: "(nat \<Rightarrow> request \<Rightarrow> error + response) \<Rightarrow> runtime" where
  "sample_runtime f =
     \<lparr>axios = f, Number = (\<lambda>v. if v = Str ''3'' then Num 3 else NaN),
      event_loop = (\<lambda>awaited ended. if ended = 0 then Response 0 else Next)\<rparr>"


definition failed_reply :: jsval where
  "failed_reply = Obj [(''state'', Str ''QUERY_STATE_FAILED''), (''error'', Str ''syntax error'')]"

section \<open>Traces\<close>

lemma requests_of_append [simp]: "requests_of (tr @ tr') = requests_of tr @ requests_of tr'"
  by (induction tr rule: requests_of.induct) simp_all

section \<open>Chunking\<close>

declare batches_loop.simps [simp del]

lemma batches_loop_step:
  "i < length fids \<Longrightarrow>
   batches_loop fids i acc = batches_loop fids (i + 100) (acc @ [slice fids i (i + 100)])"
  by (subst batches_loop.simps) (simp add: batchSize_def)

lemma batches_loop_stop: "\<not> i < length fids \<Longrightarrow> batches_loop fids i acc = acc"
  by (subst batches_loop.simps) simp

lemma slice_drop: "slice xs i (i + n) @ drop (i + n) xs = drop i xs"
proof -
  have "take n (drop i xs) @ drop n (drop i xs) = drop i xs"
    by (rule append_take_drop_id)
  then show ?thesis by (simp add: slice_def add.commute)
qed

lemma div_step:
  assumes "i < n"
  shows "Suc ((n - (i + 100) + 99) div 100) = (n - i + 99) div (100::nat)"
proof (cases "i + 100 \<le> n")
  case True
  then have "n - i + 99 = (n - (i + 100) + 99) + 100" by linarith
  then show ?thesis by (simp only: div_add_self2)
next
  case False
  with assms have a: "n - (i + 100) + 99 = 99" and b: "100 \<le> n - i + 99" and c: "n - i + 99 < 200"
    by linarith+
  have "(n - i + 99) div 100 = 1"
  proof (rule div_nat_eqI)
    show "100 * 1 \<le> n - i + 99" using b by simp
    show "n - i + 99 < 100 * Suc 1" using c by simp
  qed
  moreover have "(99::nat) div 100 = 0" by simp
  ultimately show ?thesis by (simp only: a)
qed

lemma batches_loop_concat:
  "concat (batches_loop fids i acc) = concat acc @ drop i fids"
proof (induction fids i acc rule: batches_loop.induct)
  case (1 fids i batches)
  show ?case
  proof (cases "i < length fids")
    case True
    then have "concat (batches_loop fids i batches) =
               concat (batches @ [slice fids i (i + 100)]) @ drop (i + 100) fids"
      using "1.IH" by (simp only: batches_loop_step batchSize_def)
    also have "\<dots> = concat batches @ (slice fids i (i + 100) @ drop (i + 100) fids)"
      by simp
    finally show ?thesis by (simp only: slice_drop)
  next
    case False
    then show ?thesis by (simp add: batches_loop_stop)
  qed
qed

lemma batches_loop_length:
  "length (batches_loop fids i acc) = length acc + (length fids - i + 99) div 100"
proof (induction fids i acc rule: batches_loop.induct)
  case (1 fids i batches)
  show ?case
  proof (cases "i < length fids")
    case True
    then have "length (batches_loop fids i batches) =
               length (batches @ [slice fids i (i + 100)]) + (length fids - (i + 100) + 99) div 100"
      using "1.IH" by (simp only: batches_loop_step batchSize_def)
    also have "\<dots> = length batches + Suc ((length fids - (i + 100) + 99) div 100)"
      by simp
    finally show ?thesis using div_step[OF True] by simp
  next
    case False
    then have "length fids - i + 99 < 100" by simp
    then have "(length fids - i + 99) div 100 = 0" by (rule div_less)
    with False show ?thesis by (simp add: batches_loop_stop)
  qed
qed

lemma batches_loop_all:
  "\<forall>b\<in>set acc. b \<noteq> [] \<and> length b \<le> 100 \<Longrightarrow>
   \<forall>b\<in>set (batches_loop fids i acc). b \<noteq> [] \<and> length b \<le> 100"
proof (induction fids i acc rule: batches_loop.induct)
  case (1 fids i batches)
  show ?case
  proof (cases "i < length fids")
    case True
    have "slice fids i (i + 100) \<noteq> [] \<and> length (slice fids i (i + 100)) \<le> 100"
      using True by (simp add: slice_def)
    with "1.prems" have "\<forall>b\<in>set (batches @ [slice fids i (i + batchSize)]). b \<noteq> [] \<and> length b \<le> 100"
      by (simp add: batchSize_def)
    from "1.IH"[OF True this] True show ?thesis by (simp only: batches_loop_step batchSize_def)
  next
    case False
    with "1.prems" show ?thesis by (simp add: batches_loop_stop)
  qed
qed

lemma batches_loop_butlast:
  "\<forall>b\<in>set acc. length b = 100 \<Longrightarrow> i < length fids \<Longrightarrow>
   \<forall>b\<in>set (butlast (batches_loop fids i acc)). length b = 100"
proof (induction fids i acc rule: batches_loop.induct)
  case (1 fids i batches)
  note lt = "1.prems"(2)
  show ?case
  proof (cases "i + 100 < length fids")
    case True
    then have "length (slice fids i (i + 100)) = 100"
      by (simp add: slice_def)
    with "1.prems" have "\<forall>b\<in>set (batches @ [slice fids i (i + batchSize)]). length b = 100"
      by (simp add: batchSize_def)
    moreover have "i + batchSize < length fids"
      using True by (simp add: batchSize_def)
    ultimately have
      "\<forall>b\<in>set (butlast (batches_loop fids (i + batchSize)
                               (batches @ [slice fids i (i + batchSize)]))). length b = 100"
      by (rule "1.IH"[OF lt])
    moreover have "batches_loop fids i batches =
                   batches_loop fids (i + 100) (batches @ [slice fids i (i + 100)])"
      using lt by (rule batches_loop_step)
    ultimately show ?thesis by (simp only: batchSize_def)
  next
    case False
    then have "batches_loop fids i batches = batches @ [slice fids i (i + 100)]"
      using lt by (simp add: batches_loop_step batches_loop_stop)
    with "1.prems" show ?thesis by simp
  qed
qed

lemma ceil100: "nat \<lceil>real n / 100\<rceil> = (n + 99) div 100"
  by linarith

lemma make_batches_concat: "concat (make_batches fids) = fids"
  by (simp add: make_batches_def batches_loop_concat)

lemma make_batches_length: "length (make_batches fids) = nat \<lceil>real (length fids) / 100\<rceil>"
  by (simp add: make_batches_def batches_loop_length ceil100)

lemma make_batches_all: "\<forall>b\<in>set (make_batches fids). b \<noteq> [] \<and> length b \<le> 100"
  unfolding make_batches_def by (rule batches_loop_all) simp

lemma make_batches_butlast: "\<forall>b\<in>set (butlast (make_batches fids)). length b = 100"
proof (cases "fids = []")
  case True
  then show ?thesis by (simp add: make_batches_def batches_loop_stop)
next
  case False
  then have "0 < length fids" by simp
  with batches_loop_butlast[of "[]" 0 fids] show ?thesis by (simp add: make_batches_def)
qed

lemma make_batches_small:
  assumes "fids \<noteq> []" and "length fids \<le> 100"
  shows "make_batches fids = [fids]"
proof -
  have "batches_loop fids 0 [] = batches_loop fids (0 + 100) ([] @ [slice fids 0 (0 + 100)])"
    using assms(1) by (intro batches_loop_step) simp
  also have "\<dots> = [slice fids 0 (0 + 100)]"
    using assms(2) by (simp add: batches_loop_stop)
  also have "\<dots> = [fids]"
    using assms(2) by (simp add: slice_def)
  finally show ?thesis by (simp add: make_batches_def)
qed

section \<open>Dispatching the chunks\<close>

declare promise_all.simps [simp del]

lemma promise_all_done: "promise_all rt ev nbatches [] [] ended tr = (Inr (), tr)"
  by (subst promise_all.simps) simp

lemma promise_all_Next:
  assumes "\<not> (queue = [] \<and> active = [])"
    and "next_turn rt active ended = Next"
    and "start_task ev nbatches (queue, active, tr) = (queue', active', tr1)"
  shows "promise_all rt ev nbatches queue active ended tr =
           promise_all rt ev nbatches queue' active' (ended - 1) tr1"
proof -
  from assms(1) have "(queue = [] \<and> active = []) = False" by simp
  then show ?thesis
    by (subst promise_all.simps) (simp only: if_False assms(2,3) turn.case prod.case)
qed

lemma promise_all_Response:
  assumes "\<not> (queue = [] \<and> active = [])"
    and "next_turn rt active ended = Response k"
    and "active ! k = (index, batch, n)"
    and "unfollow_batch index (axios rt n (unfollow_request ev batch)) tr = (Inr u, tr1)"
  shows "promise_all rt ev nbatches queue active ended tr =
           promise_all rt ev nbatches queue (take k active @ drop (Suc k) active) (Suc ended) tr1"
proof -
  from assms(1) have "(queue = [] \<and> active = []) = False" by simp
  then show ?thesis
    by (subst promise_all.simps) (simp only: if_False assms(2,3,4) turn.case prod.case sum.case)
qed

lemma unfollow_batch_shape:
  "unfollow_batch index outcome tr = (Inr (), tr @ outcome_lines index outcome)"
  "requests_of (outcome_lines index outcome) = []"
  by (auto simp: outcome_lines_def unfollow_batch_def batch_try_def split: sum.splits)

lemma outcome_lines_rejected: "outcome_lines index (Inl e) = failure_lines index e"
  by (simp add: outcome_lines_def unfollow_batch_def batch_try_def)

lemma outcome_lines_resolved:
  "outcome_lines index (Inr r) =
     (case get_prop (data r) ''success'' of
        Inl e \<Rightarrow> failure_lines index e
      | Inr v \<Rightarrow>
          if truthy v
          then [Log SUCCESS [S ''Batch '', V (Num (int index + 1)), S '' processed successfully.'']]
          else [Log WARN [S ''Batch '', V (Num (int index + 1)), S '' processed with issues.'']])"
  by (simp add: outcome_lines_def unfollow_batch_def batch_try_def split: sum.splits)

lemma start_task_queued:
  "start_task ev nbatches ((index, batch) # queue, active, tr) =
     (queue, active @ [(index, batch, length (requests_of tr))],
      tr @ [Log INFO [S ''Processing batch '', V (Num (int index + 1)), S ''/'',
                      V (Num (int nbatches)), S '' with '', V (Num (int (length batch))),
                      S '' FIDs...''],
            Request (unfollow_request ev batch)])"
  by (simp add: batch_begin_def)

text \<open>
  From any state of the limiter the turns end with every queued task started, in the
  order of the queue; every task writes the lines of its outcome, after its request
  when the task was still queued.
\<close>

lemma promise_all_shape:
  "\<exists>evs. promise_all rt ev nbatches queue active ended tr = (Inr (), tr @ evs) \<and>
         requests_of evs = map (\<lambda>(index, batch). unfollow_request ev batch) queue \<and>
         (\<forall>index batch n. (index, batch, n) \<in> set active \<longrightarrow>
              (\<exists>pre post. evs = pre @ outcome_lines index (axios rt n (unfollow_request ev batch)) @ post)) \<and>
         (\<forall>j index batch. j < length queue \<and> queue ! j = (index, batch) \<longrightarrow>
              (\<exists>pre mid post. evs = pre @ Request (unfollow_request ev batch) # mid @
                 outcome_lines index
                   (axios rt (length (requests_of tr) + j) (unfollow_request ev batch)) @ post))"
proof (induction rt ev nbatches queue active ended tr rule: promise_all.induct)
  case (1 rt ev nbatches queue active ended tr)
  let ?out = "\<lambda>i b n. outcome_lines i (axios rt n (unfollow_request ev b))"
  show ?case
  proof (cases "queue = [] \<and> active = []")
    case True
    then have "promise_all rt ev nbatches queue active ended tr = (Inr (), tr @ [])"
      by (simp add: promise_all_done)
    with True show ?thesis by auto
  next
    case busy: False
    show ?thesis
    proof (cases "next_turn rt active ended")
      case Next
      show ?thesis
      proof (cases queue)
        case Nil
        then have st: "start_task ev nbatches (queue, active, tr) = ([], active, tr)" by simp
        from "1.IH"(2)[OF busy Next st[symmetric] refl] obtain evs where
          run: "promise_all rt ev nbatches [] active (ended - 1) tr = (Inr (), tr @ evs)" and
          req: "requests_of evs = map (\<lambda>(index, batch). unfollow_request ev batch) []" and
          act: "\<forall>index batch n. (index, batch, n) \<in> set active \<longrightarrow>
                  (\<exists>pre post. evs = pre @ ?out index batch n @ post)"
          by auto
        have "promise_all rt ev nbatches queue active ended tr = (Inr (), tr @ evs)"
          using run by (simp add: promise_all_Next[OF busy Next st])
        with act req Nil show ?thesis by simp
      next
        case (Cons q rest)
        obtain index batch where q: "q = (index, batch)" by (cases q)
        let ?begin = "[Log INFO [S ''Processing batch '', V (Num (int index + 1)), S ''/'',
                                 V (Num (int nbatches)), S '' with '', V (Num (int (length batch))),
                                 S '' FIDs...''],
                       Request (unfollow_request ev batch)]"
        let ?active' = "active @ [(index, batch, length (requests_of tr))]"
        have st: "start_task ev nbatches (queue, active, tr) = (rest, ?active', tr @ ?begin)"
          unfolding Cons q by (rule start_task_queued)
        from "1.IH"(2)[OF busy Next st[symmetric] refl] obtain evs where
          run: "promise_all rt ev nbatches rest ?active' (ended - 1) (tr @ ?begin) =
                  (Inr (), (tr @ ?begin) @ evs)" and
          req: "requests_of evs = map (\<lambda>(index, batch). unfollow_request ev batch) rest" and
          act: "\<And>i b n. (i, b, n) \<in> set ?active' \<Longrightarrow> \<exists>pre post. evs = pre @ ?out i b n @ post" and
          que: "\<And>j i b. j < length rest \<Longrightarrow> rest ! j = (i, b) \<Longrightarrow>
                  \<exists>pre mid post. evs = pre @ Request (unfollow_request ev b) # mid @
                     ?out i b (length (requests_of (tr @ ?begin)) + j) @ post"
          by blast
        have whole: "promise_all rt ev nbatches queue active ended tr = (Inr (), tr @ (?begin @ evs))"
          using run by (simp add: promise_all_Next[OF busy Next st])
        have reqs: "requests_of (?begin @ evs) = map (\<lambda>(index, batch). unfollow_request ev batch) queue"
          using req Cons q by simp
        have awaited: "\<exists>pre post. ?begin @ evs = pre @ ?out i b n @ post"
          if "(i, b, n) \<in> set active" for i b n
        proof -
          from that act[of i b n] obtain pre post where "evs = pre @ ?out i b n @ post"
            by auto
          then have "?begin @ evs = (?begin @ pre) @ ?out i b n @ post" by simp
          then show ?thesis by blast
        qed
        have queued: "\<exists>pre mid post. ?begin @ evs = pre @ Request (unfollow_request ev b) # mid @
                                        ?out i b (length (requests_of tr) + j) @ post"
          if j: "j < length queue" "queue ! j = (i, b)" for j i b
        proof (cases j)
          case 0
          with j Cons q have ib: "i = index" "b = batch" by simp_all
          from act[of index batch "length (requests_of tr)"] obtain pre post where
            "evs = pre @ ?out index batch (length (requests_of tr)) @ post" by auto
          then have "?begin @ evs =
                       [hd ?begin] @ Request (unfollow_request ev batch) # pre @
                       ?out index batch (length (requests_of tr)) @ post"
            by simp
          then show ?thesis unfolding ib 0 by (simp only: add_0_right) blast
        next
          case (Suc j')
          with j Cons have j': "j' < length rest" "rest ! j' = (i, b)" by simp_all
          have n: "length (requests_of (tr @ ?begin)) + j' = length (requests_of tr) + j"
            using Suc by simp
          from que[OF j'] obtain pre mid post where
            "evs = pre @ Request (unfollow_request ev b) # mid @
                   ?out i b (length (requests_of tr) + j) @ post"
            unfolding n by blast
          then have "?begin @ evs = (?begin @ pre) @ Request (unfollow_request ev b) # mid @
                                     ?out i b (length (requests_of tr) + j) @ post"
            by simp
          then show ?thesis by blast
        qed
        from whole reqs awaited queued show ?thesis by blast
      qed
    next
      case (Response k)
      then have k: "k < length active" by (rule next_turn_Response)
      obtain index batch n where a: "active ! k = (index, batch, n)" by (cases "active ! k")
      let ?outcome = "axios rt n (unfollow_request ev batch)"
      let ?active' = "take k active @ drop (Suc k) active"
      let ?evs1 = "outcome_lines index ?outcome"
      have ub: "unfollow_batch index ?outcome tr = (Inr (), tr @ ?evs1)"
        and r1: "requests_of ?evs1 = []"
        by (rule unfollow_batch_shape)+
      from "1.IH"(1)[OF busy Response a[symmetric] refl ub[symmetric] refl] obtain evs where
        run: "promise_all rt ev nbatches queue ?active' (Suc ended) (tr @ ?evs1) =
                (Inr (), (tr @ ?evs1) @ evs)" and
        req: "requests_of evs = map (\<lambda>(index, batch). unfollow_request ev batch) queue" and
        act: "\<And>i b m. (i, b, m) \<in> set ?active' \<Longrightarrow> \<exists>pre post. evs = pre @ ?out i b m @ post" and
        que: "\<And>j i b. j < length queue \<Longrightarrow> queue ! j = (i, b) \<Longrightarrow>
                \<exists>pre mid post. evs = pre @ Request (unfollow_request ev b) # mid @
                   ?out i b (length (requests_of (tr @ ?evs1)) + j) @ post"
        by blast
      have whole: "promise_all rt ev nbatches queue active ended tr = (Inr (), tr @ (?evs1 @ evs))"
        using run by (simp add: promise_all_Response[OF busy Response a ub])
      have reqs: "requests_of (?evs1 @ evs) = map (\<lambda>(index, batch). unfollow_request ev batch) queue"
        using req r1 by simp
      have split: "set active = insert (index, batch, n) (set ?active')"
      proof -
        have "active = take k active @ (active ! k) # drop (Suc k) active"
          using k by (rule id_take_nth_drop)
        then have "set active = set (take k active @ (active ! k) # drop (Suc k) active)"
          by simp
        then show ?thesis using a by auto
      qed
      have awaited: "\<exists>pre post. ?evs1 @ evs = pre @ ?out i b m @ post"
        if m: "(i, b, m) \<in> set active" for i b m
      proof (cases "(i, b, m) = (index, batch, n)")
        case True
        then have "?evs1 @ evs = [] @ ?out i b m @ evs" by simp
        then show ?thesis by blast
      next
        case False
        with m split have "(i, b, m) \<in> set ?active'" by auto
        from act[OF this] obtain pre post where "evs = pre @ ?out i b m @ post" by blast
        then have "?evs1 @ evs = (?evs1 @ pre) @ ?out i b m @ post" by simp
        then show ?thesis by blast
      qed
      have queued: "\<exists>pre mid post. ?evs1 @ evs = pre @ Request (unfollow_request ev b) # mid @
                                      ?out i b (length (requests_of tr) + j) @ post"
        if j: "j < length queue" "queue ! j = (i, b)" for j i b
      proof -
        have n: "length (requests_of (tr @ ?evs1)) + j = length (requests_of tr) + j"
          using r1 by simp
        from que[OF j] obtain pre mid post where
          "evs = pre @ Request (unfollow_request ev b) # mid @
                 ?out i b (length (requests_of tr) + j) @ post"
          unfolding n by blast
        then have "?evs1 @ evs = (?evs1 @ pre) @ Request (unfollow_request ev b) # mid @
                                 ?out i b (length (requests_of tr) + j) @ post"
          by simp
        then show ?thesis by blast
      qed
      from whole reqs awaited queued show ?thesis by blast
    qed
  qed
qed

text \<open>
  The calls of \<^verbatim>\<open>limit\<close>: the first \<open>m\<close> tasks of the queue are started, in order, and
  await their responses.
\<close>

lemma limit_phase:
  "\<exists>m evs active'.
     (limit ev nbatches ^^ k) (queue, active, tr) = (drop m queue, active', tr @ evs) \<and>
     m \<le> length queue \<and> set active \<subseteq> set active' \<and>
     requests_of evs = map (\<lambda>(index, batch). unfollow_request ev batch) (take m queue) \<and>
     (\<forall>j index batch. j < m \<and> queue ! j = (index, batch) \<longrightarrow>
        (index, batch, length (requests_of tr) + j) \<in> set active' \<and>
        (\<exists>pre post. evs = pre @ Request (unfollow_request ev batch) # post))"
proof (induction k arbitrary: queue active tr)
  case 0
  have "(limit ev nbatches ^^ 0) (queue, active, tr) = (drop 0 queue, active, tr @ []) \<and>
        0 \<le> length queue \<and> set active \<subseteq> set active \<and>
        requests_of [] = map (\<lambda>(index, batch). unfollow_request ev batch) (take 0 queue) \<and>
        (\<forall>j index batch. j < 0 \<and> queue ! j = (index, batch) \<longrightarrow>
           (index, batch, length (requests_of tr) + j) \<in> set active \<and>
           (\<exists>pre post. [] = pre @ Request (unfollow_request ev batch) # post))"
    by simp
  then show ?case by blast
next
  case (Suc k)
  have unfold: "(limit ev nbatches ^^ Suc k) (queue, active, tr) =
                (limit ev nbatches ^^ k) (limit ev nbatches (queue, active, tr))"
    by (simp only: funpow_Suc_right o_apply)
  show ?case
  proof (cases "length active < concurrency \<and> queue \<noteq> []")
    case False
    then have "limit ev nbatches (queue, active, tr) = (queue, active, tr)"
      by (cases queue) auto
    with unfold Suc.IH[of queue active tr] show ?thesis by simp
  next
    case True
    then obtain index batch rest where q: "queue = (index, batch) # rest"
      by (cases queue) auto
    let ?begin = "[Log INFO [S ''Processing batch '', V (Num (int index + 1)), S ''/'',
                             V (Num (int nbatches)), S '' with '', V (Num (int (length batch))),
                             S '' FIDs...''],
                   Request (unfollow_request ev batch)]"
    let ?a = "(index, batch, length (requests_of tr))"
    have "limit ev nbatches (queue, active, tr) = (rest, active @ [?a], tr @ ?begin)"
      using True unfolding q by (simp add: batch_begin_def)
    with unfold have step: "(limit ev nbatches ^^ Suc k) (queue, active, tr) =
                            (limit ev nbatches ^^ k) (rest, active @ [?a], tr @ ?begin)"
      by simp
    from Suc.IH[of rest "active @ [?a]" "tr @ ?begin"] obtain m evs active' where
      run: "(limit ev nbatches ^^ k) (rest, active @ [?a], tr @ ?begin) =
              (drop m rest, active', (tr @ ?begin) @ evs)" and
      m: "m \<le> length rest" and
      sub: "set (active @ [?a]) \<subseteq> set active'" and
      req: "requests_of evs = map (\<lambda>(index, batch). unfollow_request ev batch) (take m rest)" and
      started: "\<And>j i b. j < m \<Longrightarrow> rest ! j = (i, b) \<Longrightarrow>
                  (i, b, length (requests_of (tr @ ?begin)) + j) \<in> set active' \<and>
                  (\<exists>pre post. evs = pre @ Request (unfollow_request ev b) # post)"
      by blast
    have whole: "(limit ev nbatches ^^ Suc k) (queue, active, tr) =
                   (drop (Suc m) queue, active', tr @ (?begin @ evs))"
      using step run q by simp
    have bound: "Suc m \<le> length queue" using m q by simp
    have keep: "set active \<subseteq> set active'" using sub by simp
    have reqs: "requests_of (?begin @ evs) =
                  map (\<lambda>(index, batch). unfollow_request ev batch) (take (Suc m) queue)"
      using req q by simp
    have all: "(i, b, length (requests_of tr) + j) \<in> set active' \<and>
               (\<exists>pre post. ?begin @ evs = pre @ Request (unfollow_request ev b) # post)"
      if j: "j < Suc m" "queue ! j = (i, b)" for j i b
    proof (cases j)
      case 0
      with j q have ib: "i = index" "b = batch" by simp_all
      have "?a \<in> set active'" using sub by simp
      moreover have "?begin @ evs = [hd ?begin] @ Request (unfollow_request ev batch) # evs"
        by simp
      then have "\<exists>pre post. ?begin @ evs = pre @ Request (unfollow_request ev batch) # post"
        by blast
      ultimately show ?thesis unfolding ib 0 by simp
    next
      case (Suc j')
      with j q have j': "j' < m" "rest ! j' = (i, b)" by simp_all
      from started[OF j'] obtain pre post where
        "(i, b, length (requests_of (tr @ ?begin)) + j') \<in> set active'" and
        "evs = pre @ Request (unfollow_request ev b) # post"
        by blast
      then have "(i, b, length (requests_of tr) + j) \<in> set active'" and
        "?begin @ evs = (?begin @ pre) @ Request (unfollow_request ev b) # post"
        using Suc by simp_all
      then show ?thesis by blast
    qed
    from whole bound keep reqs all show ?thesis by blast
  qed
qed

lemma requests_of_queue:
  "map (\<lambda>(index, batch). unfollow_request ev batch) (enumerate k bs) = map (unfollow_request ev) bs"
  by (induction bs arbitrary: k) simp_all

lemma unfollowFids_run:
  assumes "fids \<noteq> []"
  shows "\<exists>evs. unfollowFids rt ev fids tr = (Inr (), tr @ evs) \<and>
               requests_of evs = map (unfollow_request ev) (make_batches fids)"
proof -
  let ?bs = "make_batches fids"
  let ?queue = "enumerate 0 ?bs"
  let ?head = "[Log INFO [S ''Preparing to unfollow '', V (Num (int (length fids))), S '' users.''],
                Log INFO [S ''Splitting into '', V (Num (int (length ?bs))), S '' batch(es).'']]"
  let ?done = "Log SUCCESS [S ''All unfollow operations completed.'']"
  let ?req = "\<lambda>(index, batch). unfollow_request ev batch"
  from limit_phase[where ev = ev and nbatches = "length ?bs" and k = "length ?bs" and queue = ?queue
                    and active = "[]" and tr = "tr @ ?head"]
  obtain m evs0 active where
    lim: "(limit ev (length ?bs) ^^ length ?bs) (?queue, [], tr @ ?head) =
            (drop m ?queue, active, (tr @ ?head) @ evs0)" and
    req0: "requests_of evs0 = map ?req (take m ?queue)"
    by blast
  from promise_all_shape[where rt = rt and ev = ev and nbatches = "length ?bs" and queue = "drop m ?queue"
                          and active = active and ended = 0 and tr = "(tr @ ?head) @ evs0"]
  obtain evs1 where
    run: "promise_all rt ev (length ?bs) (drop m ?queue) active 0 ((tr @ ?head) @ evs0) =
            (Inr (), ((tr @ ?head) @ evs0) @ evs1)" and
    req1: "requests_of evs1 = map ?req (drop m ?queue)"
    by blast
  let ?evs = "?head @ evs0 @ evs1 @ [?done]"
  have whole: "unfollowFids rt ev fids tr = (Inr (), tr @ ?evs)"
    using assms lim run by (simp add: unfollowFids_def Let_def)
  have "requests_of ?evs = map ?req (take m ?queue) @ map ?req (drop m ?queue)"
    using req0 req1 by simp
  also have "\<dots> = map ?req (take m ?queue @ drop m ?queue)"
    by (simp only: map_append)
  finally have "requests_of ?evs = map ?req ?queue"
    by (simp only: append_take_drop_id)
  then have "requests_of ?evs = map (unfollow_request ev) ?bs"
    by (simp add: requests_of_queue)
  with whole show ?thesis by blast
qed

lemma unfollowFids_requests:
  assumes "fids \<noteq> []"
  shows "requests_of (snd (unfollowFids rt ev fids tr)) =
           requests_of tr @ map (unfollow_request ev) (make_batches fids)"
proof -
  from unfollowFids_run[OF assms, of rt ev tr] obtain evs where
    "unfollowFids rt ev fids tr = (Inr (), tr @ evs)" and
    "requests_of evs = map (unfollow_request ev) (make_batches fids)"
    by blast
  then show ?thesis by simp
qed

lemma unfollowFids_returns: "\<exists>evs. unfollowFids rt ev fids tr = (Inr (), tr @ evs)"
proof (cases "fids = []")
  case True
  then show ?thesis by (simp add: unfollowFids_def)
next
  case False
  from unfollowFids_run[OF this, of rt ev tr] show ?thesis by blast
qed

text \<open>
  C1. For a non-empty list of \<open>n\<close> identifiers the Batch Actuator sends one deletion
  request per chunk, in order, and the chunks are a partition of the list: there are
  \<open>\<lceil>n / 100\<rceil>\<close> of them, none is empty or longer than 100, every chunk but the last has
  exactly 100 identifiers, and their concatenation is the list itself (same order, every
  element once, duplicates kept).
\<close>

theorem unfollowFids_partitions_into_chunks:
  assumes "fids \<noteq> []"
  shows "requests_of (snd (unfollowFids rt ev fids tr)) =
           requests_of tr @ map (unfollow_request ev) (make_batches fids) \<and>
         length (make_batches fids) = nat \<lceil>real (length fids) / 100\<rceil> \<and>
         (\<forall>b\<in>set (make_batches fids). b \<noteq> [] \<and> length b \<le> 100) \<and>
         (\<forall>b\<in>set (butlast (make_batches fids)). length b = 100) \<and>
         concat (make_batches fids) = fids"
  using unfollowFids_requests[OF assms, of rt ev tr]
    make_batches_length[of fids] make_batches_all[of fids]
    make_batches_butlast[of fids] make_batches_concat[of fids]
  by blast

text \<open>
  The scenario of the specification: the list \<open>[1, 2, ..., 250]\<close> gives 3 chunks, whose
  concatenation is the list, and 3 deletion requests.
\<close>

theorem unfollowFids_partitions_into_chunks_witness:
  "length (make_batches (map Num [1..250])) = 3 \<and>
   concat (make_batches (map Num [1..250])) = map Num [1..250] \<and>
   length (requests_of (snd (unfollowFids (sample_runtime sample_axios) sample_env
                               (map Num [1..250]) []))) = 3"
proof -
  have ne: "map Num [1..250] \<noteq> []" by simp
  have "nat \<lceil>real (length (map Num [1..250])) / 100\<rceil> = 3" by simp
  with unfollowFids_partitions_into_chunks
         [OF ne, of "sample_runtime sample_axios" sample_env "[]"]
  show ?thesis by simp
qed

text \<open>
  C6. Called with the empty list, the Batch Actuator returns at once: it writes one
  warning to the log and issues no request.
\<close>

theorem unfollowFids_empty_is_noop:
  "unfollowFids rt ev [] tr = (Inr (), tr @ [Log WARN [S ''No FIDs to unfollow. Exiting.'']]) \<and>
   requests_of (snd (unfollowFids rt ev [] tr)) = requests_of tr"
  by (simp add: unfollowFids_def)

text \<open>
  C7. Whatever the outcomes of the deletion requests and whatever the order in which
  they arrive, the Batch Actuator sends the request of every chunk, in the order of the
  chunks; every chunk's request is followed, later in the trace, by the lines its task
  writes for the outcome of that request, of which there is at least one; for a request
  rejected with error \<open>e\<close> these are the two error lines of its own chunk; no error
  leaves the function; and the function ends with its completion line, which comes
  after the requests and the outcome lines of every chunk.
\<close>

theorem unfollowFids_attempts_every_chunk:
  assumes "fids \<noteq> []"
  shows "\<exists>evs. unfollowFids rt ev fids tr =
               (Inr (), tr @ evs @ [Log SUCCESS [S ''All unfollow operations completed.'']]) \<and>
         requests_of evs = map (unfollow_request ev) (make_batches fids) \<and>
         (\<forall>i<length (make_batches fids).
            outcome_lines i
              (axios rt (length (requests_of tr) + i) (unfollow_request ev (make_batches fids ! i))) \<noteq> [] \<and>
            (\<exists>pre mid post. evs = pre @ Request (unfollow_request ev (make_batches fids ! i)) # mid @
               outcome_lines i
                 (axios rt (length (requests_of tr) + i) (unfollow_request ev (make_batches fids ! i))) @
               post)) \<and>
         (\<forall>i<length (make_batches fids). \<forall>e.
            axios rt (length (requests_of tr) + i) (unfollow_request ev (make_batches fids ! i)) = Inl e \<longrightarrow>
            (\<exists>pre mid post. evs = pre @ Request (unfollow_request ev (make_batches fids ! i)) # mid @
               [Log ERROR [S ''Failed to process batch '', V (Num (int i + 1)), S ''.''],
                Log ERROR (error_detail e)] @ post))"
proof -
  let ?bs = "make_batches fids"
  let ?queue = "enumerate 0 ?bs"
  let ?head = "[Log INFO [S ''Preparing to unfollow '', V (Num (int (length fids))), S '' users.''],
                Log INFO [S ''Splitting into '', V (Num (int (length ?bs))), S '' batch(es).'']]"
  let ?req = "\<lambda>(index, batch). unfollow_request ev batch"
  let ?out = "\<lambda>i b n. outcome_lines i (axios rt n (unfollow_request ev b))"
  from limit_phase[where ev = ev and nbatches = "length ?bs" and k = "length ?bs" and queue = ?queue
                    and active = "[]" and tr = "tr @ ?head"]
  obtain m evs0 active where
    lim: "(limit ev (length ?bs) ^^ length ?bs) (?queue, [], tr @ ?head) =
            (drop m ?queue, active, (tr @ ?head) @ evs0)" and
    m: "m \<le> length ?queue" and
    req0: "requests_of evs0 = map ?req (take m ?queue)" and
    started: "\<And>j index batch. j < m \<Longrightarrow> ?queue ! j = (index, batch) \<Longrightarrow>
                (index, batch, length (requests_of (tr @ ?head)) + j) \<in> set active \<and>
                (\<exists>pre post. evs0 = pre @ Request (unfollow_request ev batch) # post)"
    by blast
  from promise_all_shape[where rt = rt and ev = ev and nbatches = "length ?bs" and queue = "drop m ?queue"
                          and active = active and ended = 0 and tr = "(tr @ ?head) @ evs0"]
  obtain evs1 where
    run: "promise_all rt ev (length ?bs) (drop m ?queue) active 0 ((tr @ ?head) @ evs0) =
            (Inr (), ((tr @ ?head) @ evs0) @ evs1)" and
    req1: "requests_of evs1 = map ?req (drop m ?queue)" and
    awaited: "\<And>index batch n. (index, batch, n) \<in> set active \<Longrightarrow>
                \<exists>pre post. evs1 = pre @ ?out index batch n @ post" and
    queued: "\<And>j index batch. j < length (drop m ?queue) \<Longrightarrow>
               drop m ?queue ! j = (index, batch) \<Longrightarrow>
               \<exists>pre mid post. evs1 = pre @ Request (unfollow_request ev batch) # mid @
                  ?out index batch (length (requests_of ((tr @ ?head) @ evs0)) + j) @ post"
    by blast
  let ?evs = "?head @ evs0 @ evs1"
  have whole: "unfollowFids rt ev fids tr =
                 (Inr (), tr @ ?evs @ [Log SUCCESS [S ''All unfollow operations completed.'']])"
    using assms lim run by (simp add: unfollowFids_def Let_def)
  have "requests_of ?evs = map ?req (take m ?queue) @ map ?req (drop m ?queue)"
    using req0 req1 by simp
  also have "\<dots> = map ?req (take m ?queue @ drop m ?queue)"
    by (simp only: map_append)
  finally have "requests_of ?evs = map ?req ?queue"
    by (simp only: append_take_drop_id)
  then have reqs: "requests_of ?evs = map (unfollow_request ev) ?bs"
    by (simp add: requests_of_queue)
  have count: "length (requests_of ((tr @ ?head) @ evs0)) = length (requests_of tr) + m"
    using req0 m by simp
  have lines: "\<exists>pre mid post. ?evs = pre @ Request (unfollow_request ev (?bs ! i)) # mid @
                                  ?out i (?bs ! i) (length (requests_of tr) + i) @ post"
    if i: "i < length ?bs" for i
  proof (cases "i < m")
    case True
    have "?queue ! i = (i, ?bs ! i)" using i by (simp add: nth_enumerate_eq)
    from started[OF True this] obtain pre post where
      a: "(i, ?bs ! i, length (requests_of (tr @ ?head)) + i) \<in> set active" and
      r: "evs0 = pre @ Request (unfollow_request ev (?bs ! i)) # post"
      by blast
    have n: "length (requests_of (tr @ ?head)) + i = length (requests_of tr) + i" by simp
    from awaited[OF a] obtain pre' post' where
      "evs1 = pre' @ ?out i (?bs ! i) (length (requests_of tr) + i) @ post'"
      unfolding n by blast
    with r have "?evs = (?head @ pre) @ Request (unfollow_request ev (?bs ! i)) # (post @ pre') @
                        ?out i (?bs ! i) (length (requests_of tr) + i) @ post'"
      by simp
    then show ?thesis by blast
  next
    case False
    with i have j: "i - m < length (drop m ?queue)" by simp
    have q: "drop m ?queue ! (i - m) = (i, ?bs ! i)"
      using False i m by (simp add: nth_enumerate_eq)
    have n: "length (requests_of ((tr @ ?head) @ evs0)) + (i - m) = length (requests_of tr) + i"
      using False unfolding count by simp
    from queued[OF j q] obtain pre mid post where
      "evs1 = pre @ Request (unfollow_request ev (?bs ! i)) # mid @
              ?out i (?bs ! i) (length (requests_of tr) + i) @ post"
      unfolding n by blast
    then have "?evs = (?head @ evs0 @ pre) @ Request (unfollow_request ev (?bs ! i)) # mid @
                      ?out i (?bs ! i) (length (requests_of tr) + i) @ post"
      by simp
    then show ?thesis by blast
  qed
  have some: "outcome_lines i outcome \<noteq> []" for i outcome
    by (cases outcome) (simp_all add: outcome_lines_rejected outcome_lines_resolved split: sum.splits)
  have fails: "\<exists>pre mid post. ?evs = pre @ Request (unfollow_request ev (?bs ! i)) # mid @
                                  failure_lines i e @ post"
    if i: "i < length ?bs"
      and e: "axios rt (length (requests_of tr) + i) (unfollow_request ev (?bs ! i)) = Inl e" for i e
    using lines[OF i] unfolding e outcome_lines_rejected .
  from whole reqs lines some fails show ?thesis by blast
qed

text \<open>
  A run on \<open>[1, 2, ..., 250]\<close> in which the second deletion request is rejected. The
  three tasks write their first line and send their request before any response is
  handled; the error lines of the second chunk come after all three requests.
\<close>

lemma sample_interleaving:
  "unfollowFids (sample_runtime (replying_at 1 (Inl server_error) sample_axios)) sample_env
     (map Num [1..250]) [] =
   (Inr (),
    [Log INFO [S ''Preparing to unfollow '', V (Num 250), S '' users.''],
     Log INFO [S ''Splitting into '', V (Num 3), S '' batch(es).''],
     Log INFO [S ''Processing batch '', V (Num 1), S ''/'', V (Num 3), S '' with '', V (Num 100),
               S '' FIDs...''],
     Request (unfollow_request sample_env (map Num [1..100])),
     Log INFO [S ''Processing batch '', V (Num 2), S ''/'', V (Num 3), S '' with '', V (Num 100),
               S '' FIDs...''],
     Request (unfollow_request sample_env (map Num [101..200])),
     Log INFO [S ''Processing batch '', V (Num 3), S ''/'', V (Num 3), S '' with '', V (Num 50),
               S '' FIDs...''],
     Request (unfollow_request sample_env (map Num [201..250])),
     Log SUCCESS [S ''Batch '', V (Num 1), S '' processed successfully.''],
     Log ERROR [S ''Failed to process batch '', V (Num 2), S ''.''],
     Log ERROR [S ''Status: '', V (Num 500), S '' - '', J (Obj [(''error'', Str ''internal'')])],
     Log SUCCESS [S ''Batch '', V (Num 3), S '' processed successfully.''],
     Log SUCCESS [S ''All unfollow operations completed.'']])"
  by code_simp

text \<open>
  In that run the function returns normally, all 3 requests are sent, the success line
  of the first chunk and the error lines of the second chunk follow their requests.
\<close>

theorem unfollowFids_attempts_every_chunk_witness:
  "\<exists>evs. unfollowFids (sample_runtime (replying_at 1 (Inl server_error) sample_axios)) sample_env
           (map Num [1..250]) [] =
          (Inr (), evs @ [Log SUCCESS [S ''All unfollow operations completed.'']]) \<and>
         length (requests_of evs) = 3 \<and>
         (\<exists>pre mid post. evs = pre @
            Request (unfollow_request sample_env (make_batches (map Num [1..250]) ! 0)) # mid @
            [Log SUCCESS [S ''Batch '', V (Num 1), S '' processed successfully.'']] @ post) \<and>
         (\<exists>pre mid post. evs = pre @
            Request (unfollow_request sample_env (make_batches (map Num [1..250]) ! 1)) # mid @
            [Log ERROR [S ''Failed to process batch '', V (Num 2), S ''.''],
             Log ERROR (error_detail server_error)] @ post)"
proof -
  let ?rt = "sample_runtime (replying_at 1 (Inl server_error) sample_axios)"
  let ?fids = "map Num [1..250]"
  have ne: "?fids \<noteq> []" by simp
  have len: "length (make_batches ?fids) = 3"
    by (simp add: make_batches_length)
  have resolved: "outcome_lines 0 (axios ?rt (length (requests_of []) + 0)
                    (unfollow_request sample_env (make_batches ?fids ! 0))) =
                  [Log SUCCESS [S ''Batch '', V (Num 1), S '' processed successfully.'']]"
    by (simp add: outcome_lines_resolved sample_runtime_def replying_at_def sample_axios_def
                  unfollow_request_def ok_def)
  have rejected: "axios ?rt (length (requests_of []) + 1)
                    (unfollow_request sample_env (make_batches ?fids ! 1)) = Inl server_error"
    by (simp add: sample_runtime_def replying_at_def)
  from unfollowFids_attempts_every_chunk[OF ne, of ?rt sample_env "[]"] obtain evs where
    run: "unfollowFids ?rt sample_env ?fids [] =
            (Inr (), [] @ evs @ [Log SUCCESS [S ''All unfollow operations completed.'']])" and
    reqs: "requests_of evs = map (unfollow_request sample_env) (make_batches ?fids)" and
    lines: "\<forall>i<length (make_batches ?fids).
              outcome_lines i (axios ?rt (length (requests_of []) + i)
                (unfollow_request sample_env (make_batches ?fids ! i))) \<noteq> [] \<and>
              (\<exists>pre mid post. evs = pre @
                 Request (unfollow_request sample_env (make_batches ?fids ! i)) # mid @
                 outcome_lines i (axios ?rt (length (requests_of []) + i)
                   (unfollow_request sample_env (make_batches ?fids ! i))) @ post)" and
    fails: "\<forall>i<length (make_batches ?fids). \<forall>e.
              axios ?rt (length (requests_of []) + i)
                (unfollow_request sample_env (make_batches ?fids ! i)) = Inl e \<longrightarrow>
              (\<exists>pre mid post. evs = pre @
                 Request (unfollow_request sample_env (make_batches ?fids ! i)) # mid @
                 [Log ERROR [S ''Failed to process batch '', V (Num (int i + 1)), S ''.''],
                  Log ERROR (error_detail e)] @ post)"
    by blast
  have "0 < length (make_batches ?fids)" using len by simp
  with lines have
    "\<exists>pre mid post. evs = pre @
       Request (unfollow_request sample_env (make_batches ?fids ! 0)) # mid @
       outcome_lines 0 (axios ?rt (length (requests_of []) + 0)
         (unfollow_request sample_env (make_batches ?fids ! 0))) @ post"
    by blast
  then have first: "\<exists>pre mid post. evs = pre @
       Request (unfollow_request sample_env (make_batches ?fids ! 0)) # mid @
       [Log SUCCESS [S ''Batch '', V (Num 1), S '' processed successfully.'']] @ post"
    unfolding resolved .
  have "1 < length (make_batches ?fids)" using len by simp
  with fails rejected have
    "\<exists>pre mid post. evs = pre @
       Request (unfollow_request sample_env (make_batches ?fids ! 1)) # mid @
       [Log ERROR [S ''Failed to process batch '', V (Num (int 1 + 1)), S ''.''],
        Log ERROR (error_detail server_error)] @ post"
    by blast
  then have second: "\<exists>pre mid post. evs = pre @
       Request (unfollow_request sample_env (make_batches ?fids ! 1)) # mid @
       [Log ERROR [S ''Failed to process batch '', V (Num 2), S ''.''],
        Log ERROR (error_detail server_error)] @ post"
    by simp
  have "length (requests_of evs) = 3" using reqs len by simp
  with run first second show ?thesis by auto
qed

text \<open>
  A run on \<open>[1, 2, ..., 650]\<close>, seven chunks, in which the second deletion request is
  rejected. Five tasks start at once; the sixth starts when the first has ended, the
  seventh when the second has.
\<close>

lemma sample_queueing:
  "unfollowFids (sample_runtime (replying_at 1 (Inl server_error) sample_axios)) sample_env
     (map Num [1..650]) [] =
   (Inr (),
    [Log INFO [S ''Preparing to unfollow '', V (Num 650), S '' users.''],
     Log INFO [S ''Splitting into '', V (Num 7), S '' batch(es).''],
     Log INFO [S ''Processing batch '', V (Num 1), S ''/'', V (Num 7), S '' with '', V (Num 100),
               S '' FIDs...''],
     Request (unfollow_request sample_env (map Num [1..100])),
     Log INFO [S ''Processing batch '', V (Num 2), S ''/'', V (Num 7), S '' with '', V (Num 100),
               S '' FIDs...''],
     Request (unfollow_request sample_env (map Num [101..200])),
     Log INFO [S ''Processing batch '', V (Num 3), S ''/'', V (Num 7), S '' with '', V (Num 100),
               S '' FIDs...''],
     Request (unfollow_request sample_env (map Num [201..300])),
     Log INFO [S ''Processing batch '', V (Num 4), S ''/'', V (Num 7), S '' with '', V (Num 100),
               S '' FIDs...''],
     Request (unfollow_request sample_env (map Num [301..400])),
     Log INFO [S ''Processing batch '', V (Num 5), S ''/'', V (Num 7), S '' with '', V (Num 100),
               S '' FIDs...''],
     Request (unfollow_request sample_env (map Num [401..500])),
     Log SUCCESS [S ''Batch '', V (Num 1), S '' processed successfully.''],
     Log INFO [S ''Processing batch '', V (Num 6), S ''/'', V (Num 7), S '' with '', V (Num 100),
               S '' FIDs...''],
     Request (unfollow_request sample_env (map Num [501..600])),
     Log ERROR [S ''Failed to process batch '', V (Num 2), S ''.''],
     Log ERROR [S ''Status: '', V (Num 500), S '' - '', J (Obj [(''error'', Str ''internal'')])],
     Log INFO [S ''Processing batch '', V (Num 7), S ''/'', V (Num 7), S '' with '', V (Num 50),
               S '' FIDs...''],
     Request (unfollow_request sample_env (map Num [601..650])),
     Log SUCCESS [S ''Batch '', V (Num 3), S '' processed successfully.''],
     Log SUCCESS [S ''Batch '', V (Num 4), S '' processed successfully.''],
     Log SUCCESS [S ''Batch '', V (Num 5), S '' processed successfully.''],
     Log SUCCESS [S ''Batch '', V (Num 6), S '' processed successfully.''],
     Log SUCCESS [S ''Batch '', V (Num 7), S '' processed successfully.''],
     Log SUCCESS [S ''All unfollow operations completed.'']])"
  by code_simp

section \<open>The Query Runner\<close>

lemma get_prop_total:
  "get_prop v k = Inr x \<Longrightarrow> \<exists>y. get_prop v k' = Inr y"
  by (cases v) simp_all

lemma poll_rejected:
  assumes "axios rt (length (requests_of tr)) (DuneStatus (DUNE_API_KEY ev) eid) = Inl e"
  shows "poll_status rt ev eid tr =
           Some (Inl e, tr @ [Sleep 3000, Request (DuneStatus (DUNE_API_KEY ev) eid)])"
  using assms by (subst poll_status.simps) (simp add: http_def)

lemma poll_failed:
  assumes "axios rt (length (requests_of tr)) (DuneStatus (DUNE_API_KEY ev) eid) = Inr r"
    and "get_prop (data r) ''state'' = Inr (Str ''QUERY_STATE_FAILED'')"
  shows "\<exists>err. get_prop (data r) ''error'' = Inr err \<and>
           poll_status rt ev eid tr =
             Some (Inl (Error [S ''Dune query failed: '', V err]),
                   tr @ [Sleep 3000, Request (DuneStatus (DUNE_API_KEY ev) eid)])"
proof -
  from get_prop_total[OF assms(2)] obtain err where
    err: "get_prop (data r) ''error'' = Inr err" by blast
  with assms have "poll_status rt ev eid tr =
           Some (Inl (Error [S ''Dune query failed: '', V err]),
                 tr @ [Sleep 3000, Request (DuneStatus (DUNE_API_KEY ev) eid)])"
    by (subst poll_status.simps) (simp add: http_def)
  with err show ?thesis by blast
qed

lemma poll_completed:
  assumes "poll_reply rt ev eid (length (requests_of tr)) = Inr (Str ''QUERY_STATE_COMPLETED'')"
  shows "poll_status rt ev eid tr =
           Some (Inr (), tr @ [Sleep 3000, Request (DuneStatus (DUNE_API_KEY ev) eid),
                               Log INFO [S ''Query state: '', V (Str ''QUERY_STATE_COMPLETED''), S ''...'']])"
proof -
  from assms obtain r where
    "axios rt (length (requests_of tr)) (DuneStatus (DUNE_API_KEY ev) eid) = Inr r" and
    "get_prop (data r) ''state'' = Inr (Str ''QUERY_STATE_COMPLETED'')"
    by (auto simp: poll_reply_def split: sum.splits)
  then show ?thesis
    by (subst poll_status.simps) (simp add: http_def)
qed

lemma poll_pending:
  assumes "pending rt ev eid (length (requests_of tr)) k"
  shows "\<exists>evs. poll_status rt ev eid tr = poll_status rt ev eid (tr @ evs) \<and>
               requests_of evs = replicate k (DuneStatus (DUNE_API_KEY ev) eid)"
  using assms
proof (induction k arbitrary: tr)
  case 0
  have "poll_status rt ev eid tr = poll_status rt ev eid (tr @ []) \<and>
        requests_of [] = replicate 0 (DuneStatus (DUNE_API_KEY ev) eid)"
    by simp
  then show ?case by blast
next
  case (Suc k)
  let ?req = "DuneStatus (DUNE_API_KEY ev) eid"
  from Suc.prems obtain r st where
    r: "axios rt (length (requests_of tr)) ?req = Inr r" and
    st: "get_prop (data r) ''state'' = Inr st" and
    ne: "st \<noteq> Str ''QUERY_STATE_FAILED''" "st \<noteq> Str ''QUERY_STATE_COMPLETED''" and
    rest: "pending rt ev eid (Suc (length (requests_of tr))) k"
    by (auto simp: poll_reply_def split: sum.splits)
  let ?round = "[Sleep 3000, Request ?req, Log INFO [S ''Query state: '', V st, S ''...'']]"
  have step: "poll_status rt ev eid tr = poll_status rt ev eid (tr @ ?round)"
    using r st ne by (subst poll_status.simps) (simp add: http_def)
  have "pending rt ev eid (length (requests_of (tr @ ?round))) k"
    using rest by simp
  from Suc.IH[OF this] obtain evs where
    "poll_status rt ev eid (tr @ ?round) = poll_status rt ev eid ((tr @ ?round) @ evs)" and
    "requests_of evs = replicate k ?req"
    by blast
  with step have "poll_status rt ev eid tr = poll_status rt ev eid (tr @ (?round @ evs)) \<and>
                  requests_of (?round @ evs) = replicate (Suc k) ?req"
    by simp
  then show ?case by blast
qed

lemma start_rejected:
  assumes "axios rt (length (requests_of tr)) (execute_request rt ev) = Inl e"
  shows "start_execution rt ev tr = (Inl e, tr @ [Request (execute_request rt ev)])"
  using assms by (simp add: start_execution_def http_def execute_request_def)

lemma start_accepted:
  assumes "accepted rt ev (length (requests_of tr)) eid"
  shows "start_execution rt ev tr =
           (Inr eid, tr @ [Request (execute_request rt ev),
                           Log INFO [S ''Dune execution started with ID: '', V eid,
                                     S ''. Waiting for results...'']])"
  using assms
  by (auto simp: accepted_def start_execution_def http_def execute_request_def split: sum.splits)

lemma start_no_id:
  assumes "axios rt (length (requests_of tr)) (execute_request rt ev) = Inr r"
    and "get_prop (data r) ''execution_id'' = Inr v" and "\<not> truthy v"
  shows "start_execution rt ev tr =
           (Inl (Error [S ''Failed to get execution ID from Dune.'']),
            tr @ [Request (execute_request rt ev)])"
  using assms by (simp add: start_execution_def http_def execute_request_def)

lemma fetch_caught:
  assumes "fetch_try rt ev (tr @ [executing_line ev]) = Some (Inl e, tr @ evs)"
  shows "fetchFidsToUnfollow rt ev tr = Some ([], tr @ evs @ caught_lines e)"
  using assms by (simp add: fetchFidsToUnfollow_def)

lemma fetch_try_rejected_submission:
  assumes "axios rt (length (requests_of tr)) (execute_request rt ev) = Inl e"
  shows "fetch_try rt ev tr = Some (Inl e, tr @ [Request (execute_request rt ev)])"
  using start_rejected[OF assms] by (simp add: fetch_try_def)

text \<open>The trace up to the last poll, when the query was accepted and \<open>k\<close> polls found it pending.\<close>

lemma fetch_try_polling:
  assumes "accepted rt ev (length (requests_of tr)) eid"
    and "pending rt ev eid (length (requests_of tr) + 1) k"
  shows "\<exists>evs. requests_of evs = execute_request rt ev # replicate k (DuneStatus (DUNE_API_KEY ev) eid) \<and>
               fetch_try rt ev tr =
                 (case poll_status rt ev eid (tr @ evs) of
                    None \<Rightarrow> None
                  | Some (Inl e, tr2) \<Rightarrow> Some (Inl e, tr2)
                  | Some (Inr _, tr2) \<Rightarrow> Some (fetch_results rt ev eid tr2))"
proof -
  let ?started = "[Request (execute_request rt ev),
                   Log INFO [S ''Dune execution started with ID: '', V eid,
                             S ''. Waiting for results...'']]"
  have start: "start_execution rt ev tr = (Inr eid, tr @ ?started)"
    using assms(1) by (rule start_accepted)
  have "pending rt ev eid (length (requests_of (tr @ ?started))) k"
    using assms(2) by simp
  from poll_pending[OF this] obtain evs where
    skip: "poll_status rt ev eid (tr @ ?started) = poll_status rt ev eid ((tr @ ?started) @ evs)" and
    reqs: "requests_of evs = replicate k (DuneStatus (DUNE_API_KEY ev) eid)"
    by blast
  have "fetch_try rt ev tr =
          (case poll_status rt ev eid (tr @ (?started @ evs)) of
             None \<Rightarrow> None
           | Some (Inl e, tr2) \<Rightarrow> Some (Inl e, tr2)
           | Some (Inr _, tr2) \<Rightarrow> Some (fetch_results rt ev eid tr2))"
    using start skip by (simp add: fetch_try_def)
  moreover have "requests_of (?started @ evs) =
                 execute_request rt ev # replicate k (DuneStatus (DUNE_API_KEY ev) eid)"
    using reqs by simp
  ultimately show ?thesis by blast
qed

lemma fetch_try_rejected_poll:
  assumes "accepted rt ev (length (requests_of tr)) eid"
    and "pending rt ev eid (length (requests_of tr) + 1) k"
    and "axios rt (length (requests_of tr) + 1 + k) (DuneStatus (DUNE_API_KEY ev) eid) = Inl e"
  shows "\<exists>evs. fetch_try rt ev tr = Some (Inl e, tr @ evs)"
proof -
  from fetch_try_polling[OF assms(1,2)] obtain evs where
    reqs: "requests_of evs = execute_request rt ev # replicate k (DuneStatus (DUNE_API_KEY ev) eid)" and
    run: "fetch_try rt ev tr =
            (case poll_status rt ev eid (tr @ evs) of
               None \<Rightarrow> None
             | Some (Inl e, tr2) \<Rightarrow> Some (Inl e, tr2)
             | Some (Inr _, tr2) \<Rightarrow> Some (fetch_results rt ev eid tr2))"
    by blast
  have "axios rt (length (requests_of (tr @ evs))) (DuneStatus (DUNE_API_KEY ev) eid) = Inl e"
    using assms(3) reqs by simp
  from poll_rejected[OF this] run
  have "fetch_try rt ev tr =
          Some (Inl e, tr @ (evs @ [Sleep 3000, Request (DuneStatus (DUNE_API_KEY ev) eid)]))"
    by simp
  then show ?thesis by blast
qed

text \<open>The trace when the query was accepted and completed at the poll after \<open>k\<close> pending ones.\<close>

lemma fetch_try_completed:
  assumes "accepted rt ev (length (requests_of tr)) eid"
    and "pending rt ev eid (length (requests_of tr) + 1) k"
    and "poll_reply rt ev eid (length (requests_of tr) + 1 + k) = Inr (Str ''QUERY_STATE_COMPLETED'')"
  shows "\<exists>evs. requests_of evs =
                 execute_request rt ev # replicate (Suc k) (DuneStatus (DUNE_API_KEY ev) eid) \<and>
               fetch_try rt ev tr = Some (fetch_results rt ev eid (tr @ evs))"
proof -
  let ?req = "DuneStatus (DUNE_API_KEY ev) eid"
  from fetch_try_polling[OF assms(1,2)] obtain evs where
    reqs: "requests_of evs = execute_request rt ev # replicate k ?req" and
    run: "fetch_try rt ev tr =
            (case poll_status rt ev eid (tr @ evs) of
               None \<Rightarrow> None
             | Some (Inl e, tr2) \<Rightarrow> Some (Inl e, tr2)
             | Some (Inr _, tr2) \<Rightarrow> Some (fetch_results rt ev eid tr2))"
    by blast
  let ?last = "[Sleep 3000, Request ?req,
                Log INFO [S ''Query state: '', V (Str ''QUERY_STATE_COMPLETED''), S ''...'']]"
  have "poll_reply rt ev eid (length (requests_of (tr @ evs))) = Inr (Str ''QUERY_STATE_COMPLETED'')"
    using assms(3) reqs by simp
  from poll_completed[OF this] run
  have "fetch_try rt ev tr = Some (fetch_results rt ev eid (tr @ (evs @ ?last)))"
    by simp
  moreover have "requests_of (evs @ ?last) = execute_request rt ev # replicate (Suc k) ?req"
    using reqs by (simp add: replicate_append_same)
  ultimately show ?thesis by blast
qed

lemma fetch_try_rejected_results:
  assumes "accepted rt ev (length (requests_of tr)) eid"
    and "pending rt ev eid (length (requests_of tr) + 1) k"
    and "poll_reply rt ev eid (length (requests_of tr) + 1 + k) = Inr (Str ''QUERY_STATE_COMPLETED'')"
    and "axios rt (length (requests_of tr) + 2 + k) (DuneResults (DUNE_API_KEY ev) eid) = Inl e"
  shows "\<exists>evs. fetch_try rt ev tr = Some (Inl e, tr @ evs)"
proof -
  from fetch_try_completed[OF assms(1-3)] obtain evs where
    reqs: "requests_of evs =
             execute_request rt ev # replicate (Suc k) (DuneStatus (DUNE_API_KEY ev) eid)" and
    run: "fetch_try rt ev tr = Some (fetch_results rt ev eid (tr @ evs))"
    by blast
  have "axios rt (length (requests_of (tr @ evs))) (DuneResults (DUNE_API_KEY ev) eid) = Inl e"
    using assms(4) reqs by simp
  then have "fetch_results rt ev eid (tr @ evs) =
               (Inl e, tr @ (evs @ [Request (DuneResults (DUNE_API_KEY ev) eid)]))"
    by (simp add: fetch_results_def http_def)
  with run show ?thesis by auto
qed

text \<open>
  C3. A run of the Query Runner in which an HTTP request is rejected with an error \<open>e\<close>
  is one of three: the submission is rejected; or the query is accepted, \<open>k\<close> polls find
  it pending and the next status request is rejected; or it is accepted, pending for
  \<open>k\<close> polls, completed at the next, and the request for the results is rejected. In
  each the function returns (it is \<open>Some\<close>) the empty list, and the trace ends with the two
  error lines of the \<^verbatim>\<open>catch\<close> block: the second carries the status code and the body
  of the response when the error has one, and the message of the error otherwise.
\<close>

theorem fetchFidsToUnfollow_catches_http_failure:
  assumes "axios rt (length (requests_of tr)) (execute_request rt ev) = Inl e \<or>
           accepted rt ev (length (requests_of tr)) eid \<and>
           pending rt ev eid (length (requests_of tr) + 1) k \<and>
           (axios rt (length (requests_of tr) + 1 + k) (DuneStatus (DUNE_API_KEY ev) eid) = Inl e \<or>
            poll_reply rt ev eid (length (requests_of tr) + 1 + k) = Inr (Str ''QUERY_STATE_COMPLETED'') \<and>
            axios rt (length (requests_of tr) + 2 + k) (DuneResults (DUNE_API_KEY ev) eid) = Inl e)"
  shows "(\<exists>evs. fetchFidsToUnfollow rt ev tr =
                Some ([], tr @ evs @ [Log ERROR [S ''Error fetching data from Dune API.''],
                                      Log ERROR (error_detail e)])) \<and>
         (\<forall>r. error_response e = Some r \<longrightarrow>
              error_detail e = [S ''Status: '', V (Num (status r)), S '' - '', J (data r)]) \<and>
         (error_response e = None \<longrightarrow> error_detail e = error_message e)"
proof -
  let ?tr0 = "tr @ [executing_line ev]"
  have n: "length (requests_of ?tr0) = length (requests_of tr)" by simp
  from assms consider
    (submission) "axios rt (length (requests_of ?tr0)) (execute_request rt ev) = Inl e"
  | (polling) "accepted rt ev (length (requests_of ?tr0)) eid"
      "pending rt ev eid (length (requests_of ?tr0) + 1) k"
      "axios rt (length (requests_of ?tr0) + 1 + k) (DuneStatus (DUNE_API_KEY ev) eid) = Inl e"
  | (results) "accepted rt ev (length (requests_of ?tr0)) eid"
      "pending rt ev eid (length (requests_of ?tr0) + 1) k"
      "poll_reply rt ev eid (length (requests_of ?tr0) + 1 + k) = Inr (Str ''QUERY_STATE_COMPLETED'')"
      "axios rt (length (requests_of ?tr0) + 2 + k) (DuneResults (DUNE_API_KEY ev) eid) = Inl e"
    unfolding n by blast
  then have "\<exists>evs. fetch_try rt ev ?tr0 = Some (Inl e, ?tr0 @ evs)"
  proof cases
    case submission
    then show ?thesis using fetch_try_rejected_submission by blast
  next
    case polling
    then show ?thesis by (rule fetch_try_rejected_poll)
  next
    case results
    then show ?thesis by (rule fetch_try_rejected_results)
  qed
  then obtain evs where "fetch_try rt ev ?tr0 = Some (Inl e, tr @ ([executing_line ev] @ evs))"
    by auto
  from fetch_caught[OF this]
  have "\<exists>evs. fetchFidsToUnfollow rt ev tr =
                Some ([], tr @ evs @ [Log ERROR [S ''Error fetching data from Dune API.''],
                                      Log ERROR (error_detail e)])"
    by blast
  then show ?thesis by (simp add: error_detail_def)
qed

text \<open>The sample service with one outcome changed, up to the changed request.\<close>

lemma sample_accepted:
  "accepted (sample_runtime (replying_at (Suc m) reply sample_axios)) sample_env 0 (Str ''01HX'')"
  by (simp add: accepted_def sample_runtime_def replying_at_def sample_axios_def ok_def
                execute_request_def)

lemma sample_pending:
  "pending (sample_runtime (replying_at (Suc (Suc m)) reply sample_axios)) sample_env (Str ''01HX'')
     (0 + 1) (Suc 0)"
  by (simp add: poll_reply_def sample_runtime_def replying_at_def sample_axios_def ok_def)

lemma sample_completed:
  "poll_reply (sample_runtime (replying_at (Suc (Suc (Suc m))) reply sample_axios)) sample_env (Str ''01HX'')
     (0 + 1 + Suc 0) = Inr (Str ''QUERY_STATE_COMPLETED'')"
  by (simp add: poll_reply_def sample_runtime_def replying_at_def sample_axios_def ok_def)

text \<open>
  Three sample runs, with status 500 at the submission, at the second poll and at the
  request for the results: each returns the empty list after the two error lines.
\<close>

theorem fetchFidsToUnfollow_catches_http_failure_witness:
  "(\<exists>evs. fetchFidsToUnfollow (sample_runtime (replying_at 0 (Inl server_error) sample_axios)) sample_env [] =
          Some ([], evs @ [Log ERROR [S ''Error fetching data from Dune API.''],
                           Log ERROR [S ''Status: '', V (Num 500), S '' - '',
                                      J (Obj [(''error'', Str ''internal'')])]])) \<and>
   (\<exists>evs. fetchFidsToUnfollow (sample_runtime (replying_at 2 (Inl server_error) sample_axios)) sample_env [] =
          Some ([], evs @ [Log ERROR [S ''Error fetching data from Dune API.''],
                           Log ERROR [S ''Status: '', V (Num 500), S '' - '',
                                      J (Obj [(''error'', Str ''internal'')])]])) \<and>
   (\<exists>evs. fetchFidsToUnfollow (sample_runtime (replying_at 3 (Inl server_error) sample_axios)) sample_env [] =
          Some ([], evs @ [Log ERROR [S ''Error fetching data from Dune API.''],
                           Log ERROR [S ''Status: '', V (Num 500), S '' - '',
                                      J (Obj [(''error'', Str ''internal'')])]]))"
proof -
  let ?rt = "\<lambda>m. sample_runtime (replying_at m (Inl server_error) sample_axios)"
  have detail: "error_detail server_error =
                  [S ''Status: '', V (Num 500), S '' - '', J (Obj [(''error'', Str ''internal'')])]"
    by (simp add: error_detail_def server_error_def)
  have "axios (?rt 0) (length (requests_of [])) (execute_request (?rt 0) sample_env) = Inl server_error"
    by (simp add: sample_runtime_def replying_at_def)
  then have first: "\<exists>evs. fetchFidsToUnfollow (?rt 0) sample_env [] =
      Some ([], [] @ evs @ [Log ERROR [S ''Error fetching data from Dune API.''],
                            Log ERROR (error_detail server_error)])"
    using fetchFidsToUnfollow_catches_http_failure
            [of "?rt 0" "[]" sample_env server_error "Str ''01HX''" 0]
    by blast
  have "accepted (?rt 2) sample_env (length (requests_of [])) (Str ''01HX'')"
    using sample_accepted[of 1] by (simp add: numeral_2_eq_2)
  moreover have "pending (?rt 2) sample_env (Str ''01HX'') (length (requests_of []) + 1) (Suc 0)"
    using sample_pending[of 0] by (simp add: numeral_2_eq_2)
  moreover have "axios (?rt 2) (length (requests_of []) + 1 + Suc 0)
                   (DuneStatus (DUNE_API_KEY sample_env) (Str ''01HX'')) = Inl server_error"
    by (simp add: sample_runtime_def replying_at_def)
  ultimately have second: "\<exists>evs. fetchFidsToUnfollow (?rt 2) sample_env [] =
      Some ([], [] @ evs @ [Log ERROR [S ''Error fetching data from Dune API.''],
                            Log ERROR (error_detail server_error)])"
    using fetchFidsToUnfollow_catches_http_failure
            [of "?rt 2" "[]" sample_env server_error "Str ''01HX''" "Suc 0"]
    by blast
  have "accepted (?rt 3) sample_env (length (requests_of [])) (Str ''01HX'')"
    using sample_accepted[of 2] by (simp add: numeral_3_eq_3)
  moreover have "pending (?rt 3) sample_env (Str ''01HX'') (length (requests_of []) + 1) (Suc 0)"
    using sample_pending[of 1] by (simp add: numeral_3_eq_3)
  moreover have "poll_reply (?rt 3) sample_env (Str ''01HX'') (length (requests_of []) + 1 + Suc 0) =
                   Inr (Str ''QUERY_STATE_COMPLETED'')"
    using sample_completed[of 0] by (simp add: numeral_3_eq_3)
  moreover have "axios (?rt 3) (length (requests_of []) + 2 + Suc 0)
                   (DuneResults (DUNE_API_KEY sample_env) (Str ''01HX'')) = Inl server_error"
    by (simp add: sample_runtime_def replying_at_def)
  ultimately have third: "\<exists>evs. fetchFidsToUnfollow (?rt 3) sample_env [] =
      Some ([], [] @ evs @ [Log ERROR [S ''Error fetching data from Dune API.''],
                            Log ERROR (error_detail server_error)])"
    using fetchFidsToUnfollow_catches_http_failure
            [of "?rt 3" "[]" sample_env server_error "Str ''01HX''" "Suc 0"]
    by blast
  from first second third show ?thesis by (simp add: detail)
qed

text \<open>
  C4. When the query is accepted and the first status request reports
  \<^verbatim>\<open>QUERY_STATE_FAILED\<close>, the Query Runner returns the empty list, and its whole trace is:
  the submission, one sleep, one status request, and the two error lines. There is no
  second status request and no request for the results.
\<close>

theorem first_poll_failure_ends_polling:
  assumes "accepted rt ev (length (requests_of tr)) eid"
    and "axios rt (length (requests_of tr) + 1) (DuneStatus (DUNE_API_KEY ev) eid) = Inr r"
    and "get_prop (data r) ''state'' = Inr (Str ''QUERY_STATE_FAILED'')"
  shows "\<exists>err. get_prop (data r) ''error'' = Inr err \<and>
           fetchFidsToUnfollow rt ev tr =
             Some ([], tr @ [executing_line ev,
                             Request (execute_request rt ev),
                             Log INFO [S ''Dune execution started with ID: '', V eid,
                                       S ''. Waiting for results...''],
                             Sleep 3000,
                             Request (DuneStatus (DUNE_API_KEY ev) eid),
                             Log ERROR [S ''Error fetching data from Dune API.''],
                             Log ERROR [S ''Dune query failed: '', V err]])"
proof -
  let ?tr0 = "tr @ [executing_line ev]"
  let ?started = "[Request (execute_request rt ev),
                   Log INFO [S ''Dune execution started with ID: '', V eid,
                             S ''. Waiting for results...'']]"
  have "accepted rt ev (length (requests_of ?tr0)) eid"
    using assms(1) by simp
  then have start: "start_execution rt ev ?tr0 = (Inr eid, ?tr0 @ ?started)"
    by (rule start_accepted)
  have "axios rt (length (requests_of (?tr0 @ ?started))) (DuneStatus (DUNE_API_KEY ev) eid) = Inr r"
    using assms(2) by simp
  from poll_failed[OF this assms(3)] obtain err where
    err: "get_prop (data r) ''error'' = Inr err" and
    poll: "poll_status rt ev eid (?tr0 @ ?started) =
             Some (Inl (Error [S ''Dune query failed: '', V err]),
                   (?tr0 @ ?started) @ [Sleep 3000, Request (DuneStatus (DUNE_API_KEY ev) eid)])"
    by blast
  have "fetchFidsToUnfollow rt ev tr =
          Some ([], tr @ [executing_line ev,
                          Request (execute_request rt ev),
                          Log INFO [S ''Dune execution started with ID: '', V eid,
                                    S ''. Waiting for results...''],
                          Sleep 3000,
                          Request (DuneStatus (DUNE_API_KEY ev) eid),
                          Log ERROR [S ''Error fetching data from Dune API.''],
                          Log ERROR [S ''Dune query failed: '', V err]])"
    using start poll by (simp add: fetchFidsToUnfollow_def fetch_try_def error_detail_def)
  with err show ?thesis by blast
qed

text \<open>The sample run whose first poll reports the failed state with error \<^verbatim>\<open>syntax error\<close>.\<close>

theorem first_poll_failure_ends_polling_witness:
  "fetchFidsToUnfollow (sample_runtime (replying_at 1 (ok failed_reply) sample_axios)) sample_env [] =
     Some ([], [executing_line sample_env,
                Request (DuneExecute (Some ''dune-key'') DUNE_QUERY_ID (Num 3)),
                Log INFO [S ''Dune execution started with ID: '', V (Str ''01HX''),
                          S ''. Waiting for results...''],
                Sleep 3000,
                Request (DuneStatus (Some ''dune-key'') (Str ''01HX'')),
                Log ERROR [S ''Error fetching data from Dune API.''],
                Log ERROR [S ''Dune query failed: '', V (Str ''syntax error'')]])"
proof -
  let ?rt = "sample_runtime (replying_at 1 (ok failed_reply) sample_axios)"
  have "accepted ?rt sample_env (length (requests_of [])) (Str ''01HX'')"
    using sample_accepted[of 0 "ok failed_reply"] by simp
  moreover have "axios ?rt (length (requests_of []) + 1)
                   (DuneStatus (DUNE_API_KEY sample_env) (Str ''01HX'')) =
                 Inr \<lparr>status = 200, data = failed_reply\<rparr>"
    by (simp add: sample_runtime_def replying_at_def ok_def)
  moreover have "get_prop (data \<lparr>status = 200, data = failed_reply\<rparr>) ''state'' =
                   Inr (Str ''QUERY_STATE_FAILED'')"
    by (simp add: failed_reply_def)
  moreover have "get_prop (data \<lparr>status = 200, data = failed_reply\<rparr>) ''error'' =
                   Inr (Str ''syntax error'')"
    by (simp add: failed_reply_def)
  ultimately show ?thesis
    using first_poll_failure_ends_polling
            [of ?rt sample_env "[]" "Str ''01HX''" "\<lparr>status = 200, data = failed_reply\<rparr>"]
    by (auto simp: execute_request_def sample_runtime_def sample_env_def)
qed

text \<open>
  C5. When the submission is answered with a body whose \<^verbatim>\<open>execution_id\<close> is absent or
  falsy, step 1 throws \<^verbatim>\<open>Error('Failed to get execution ID from Dune.')\<close>, no status
  request is sent, and the Query Runner returns the empty list after logging the two
  error lines, the second being the message of that error.
\<close>

theorem missing_execution_id_returns_empty:
  assumes "axios rt (length (requests_of tr)) (execute_request rt ev) = Inr r"
    and "get_prop (data r) ''execution_id'' = Inr v"
    and "\<not> truthy v"
  shows "start_execution rt ev (tr @ [executing_line ev]) =
           (Inl (Error [S ''Failed to get execution ID from Dune.'']),
            tr @ [executing_line ev, Request (execute_request rt ev)]) \<and>
         fetchFidsToUnfollow rt ev tr =
           Some ([], tr @ [executing_line ev,
                           Request (execute_request rt ev),
                           Log ERROR [S ''Error fetching data from Dune API.''],
                           Log ERROR [S ''Failed to get execution ID from Dune.'']])"
proof -
  let ?tr0 = "tr @ [executing_line ev]"
  have "axios rt (length (requests_of ?tr0)) (execute_request rt ev) = Inr r"
    using assms(1) by simp
  from start_no_id[OF this assms(2,3)]
  have start: "start_execution rt ev ?tr0 =
                 (Inl (Error [S ''Failed to get execution ID from Dune.'']),
                  ?tr0 @ [Request (execute_request rt ev)])" .
  then have "fetchFidsToUnfollow rt ev tr =
               Some ([], tr @ [executing_line ev,
                               Request (execute_request rt ev),
                               Log ERROR [S ''Error fetching data from Dune API.''],
                               Log ERROR [S ''Failed to get execution ID from Dune.'']])"
    by (simp add: fetchFidsToUnfollow_def fetch_try_def error_detail_def)
  with start show ?thesis by simp
qed

text \<open>The sample run whose submission is answered with the empty object.\<close>

theorem missing_execution_id_returns_empty_witness:
  "fetchFidsToUnfollow (sample_runtime (replying_at 0 (ok (Obj [])) sample_axios)) sample_env [] =
     Some ([], [executing_line sample_env,
                Request (DuneExecute (Some ''dune-key'') DUNE_QUERY_ID (Num 3)),
                Log ERROR [S ''Error fetching data from Dune API.''],
                Log ERROR [S ''Failed to get execution ID from Dune.'']])"
proof -
  let ?rt = "sample_runtime (replying_at 0 (ok (Obj [])) sample_axios)"
  have "axios ?rt (length (requests_of [])) (execute_request ?rt sample_env) =
          Inr \<lparr>status = 200, data = Obj []\<rparr>"
    by (simp add: sample_runtime_def replying_at_def ok_def)
  moreover have "get_prop (data \<lparr>status = 200, data = Obj []\<rparr>) ''execution_id'' = Inr Undefined"
    by simp
  moreover have "\<not> truthy Undefined" by simp
  ultimately show ?thesis
    using missing_execution_id_returns_empty[of ?rt "[]" sample_env "\<lparr>status = 200, data = Obj []\<rparr>" Undefined]
    by (simp add: execute_request_def sample_runtime_def sample_env_def)
qed

section \<open>The confirmation gate\<close>

lemma of_char_toLower_char:
  "(of_char (toLower_char c) :: nat) =
     (if 65 \<le> (of_char c :: nat) \<and> (of_char c :: nat) \<le> 90 then of_char c + 32 else of_char c)"
  by (simp add: toLower_char_def Let_def of_char_of)

lemma toLower_char_eq_iff:
  assumes "(of_char t :: nat) = of_char u + 32" and "65 \<le> (of_char u :: nat)" and "(of_char u :: nat) \<le> 90"
  shows "toLower_char c = t \<longleftrightarrow> c = t \<or> c = u"
proof -
  have "toLower_char c = t \<longleftrightarrow> (of_char (toLower_char c) :: nat) = of_char t"
    by (simp only: of_char_eq_iff)
  also have "\<dots> \<longleftrightarrow> (of_char c :: nat) = of_char t \<or> (of_char c :: nat) = of_char u"
    using assms by (auto simp: of_char_toLower_char)
  also have "\<dots> \<longleftrightarrow> c = t \<or> c = u"
    by (simp only: of_char_eq_iff)
  finally show ?thesis .
qed

lemma toLower_char_yes:
  "toLower_char c = CHR ''y'' \<longleftrightarrow> c = CHR ''y'' \<or> c = CHR ''Y''"
  "toLower_char c = CHR ''e'' \<longleftrightarrow> c = CHR ''e'' \<or> c = CHR ''E''"
  "toLower_char c = CHR ''s'' \<longleftrightarrow> c = CHR ''s'' \<or> c = CHR ''S''"
  by (rule toLower_char_eq_iff; simp)+

lemma toLowerCase_yes_iff:
  "toLowerCase answer = ''yes'' \<longleftrightarrow>
     answer \<in> {''yes'', ''yeS'', ''yEs'', ''yES'', ''Yes'', ''YeS'', ''YEs'', ''YES''}"
proof -
  have "toLowerCase answer = ''yes'' \<longleftrightarrow>
          (\<exists>a b c. answer = [a, b, c] \<and> toLower_char a = CHR ''y'' \<and>
                   toLower_char b = CHR ''e'' \<and> toLower_char c = CHR ''s'')"
    by (auto simp: toLowerCase_def map_eq_Cons_conv)
  also have "\<dots> \<longleftrightarrow>
          answer \<in> {''yes'', ''yeS'', ''yEs'', ''yES'', ''Yes'', ''YeS'', ''YEs'', ''YES''}"
    unfolding toLower_char_yes by auto
  finally show ?thesis .
qed

lemma main_after_fetch:
  assumes "\<not> env_missing ev"
    and "fetchFidsToUnfollow rt ev (tr @ [banner]) = Some (fids, tr1)"
    and "fids \<noteq> []"
  shows "main rt ev answer tr =
           (if toLowerCase answer = ''yes''
            then Some (unfollowFids rt ev fids (tr1 @ confirmation_lines fids))
            else Some (Inr (), tr1 @ confirmation_lines fids @
                               [Log INFO [S ''Unfollow action cancelled by user.'']]))"
  using assms by (simp add: main_def Let_def)

text \<open>
  C2, as amended. Once the Query Runner has returned a non-empty list, the workflow goes
  on to the Batch Actuator exactly when the answer, put in lower case, is \<^verbatim>\<open>yes\<close>, that
  is for the eight spellings of \<^verbatim>\<open>yes\<close> in upper and lower case: the Actuator then runs
  on the list and sends one request for each of its chunks. For every other answer, the
  empty one included, the workflow ends with the line that the action was cancelled and
  sends no request.
\<close>

theorem confirmation_accepts_any_case_of_yes:
  assumes "\<not> env_missing ev"
    and "fetchFidsToUnfollow rt ev (tr @ [banner]) = Some (fids, tr1)"
    and "fids \<noteq> []"
  shows "(answer \<in> {''yes'', ''yeS'', ''yEs'', ''yES'', ''Yes'', ''YeS'', ''YEs'', ''YES''} \<longrightarrow>
            main rt ev answer tr = Some (unfollowFids rt ev fids (tr1 @ confirmation_lines fids)) \<and>
            requests_of (snd (unfollowFids rt ev fids (tr1 @ confirmation_lines fids))) =
              requests_of tr1 @ map (unfollow_request ev) (make_batches fids)) \<and>
         (answer \<notin> {''yes'', ''yeS'', ''yEs'', ''yES'', ''Yes'', ''YeS'', ''YEs'', ''YES''} \<longrightarrow>
            main rt ev answer tr =
              Some (Inr (), tr1 @ confirmation_lines fids @
                            [Log INFO [S ''Unfollow action cancelled by user.'']]))"
proof -
  have "requests_of (snd (unfollowFids rt ev fids (tr1 @ confirmation_lines fids))) =
          requests_of tr1 @ map (unfollow_request ev) (make_batches fids)"
    using unfollowFids_requests[OF assms(3), of rt ev "tr1 @ confirmation_lines fids"] by simp
  then show ?thesis
    unfolding toLowerCase_yes_iff[symmetric] main_after_fetch[OF assms] by simp
qed

text \<open>The sample run to the end of the Query Runner.\<close>

lemma sample_fetch:
  "fetchFidsToUnfollow (sample_runtime sample_axios) sample_env ([] @ [banner]) =
     Some ([Num 7, Undefined],
           [banner, executing_line sample_env,
            Request (DuneExecute (Some ''dune-key'') 3533118 (Num 3)),
            Log INFO [S ''Dune execution started with ID: '', V (Str ''01HX''),
                      S ''. Waiting for results...''],
            Sleep 3000, Request (DuneStatus (Some ''dune-key'') (Str ''01HX'')),
            Log INFO [S ''Query state: '', V (Str ''QUERY_STATE_EXECUTING''), S ''...''],
            Sleep 3000, Request (DuneStatus (Some ''dune-key'') (Str ''01HX'')),
            Log INFO [S ''Query state: '', V (Str ''QUERY_STATE_COMPLETED''), S ''...''],
            Request (DuneResults (Some ''dune-key'') (Str ''01HX'')),
            Log SUCCESS [S ''Found '', V (Num 2), S '' FIDs to unfollow.'']])"
  by code_simp

lemma sample_env_present: "\<not> env_missing sample_env"
  by (simp add: env_missing_def sample_env_def)

text \<open>
  The sample run with the answer \<^verbatim>\<open>YEs\<close>, which sends the deletion request, and with the
  answer \<^verbatim>\<open>y\<close>, which sends none.
\<close>

theorem confirmation_accepts_any_case_of_yes_witness:
  "map_option (requests_of \<circ> snd) (main (sample_runtime sample_axios) sample_env ''YEs'' []) =
     Some [DuneExecute (Some ''dune-key'') 3533118 (Num 3),
           DuneStatus (Some ''dune-key'') (Str ''01HX''),
           DuneStatus (Some ''dune-key'') (Str ''01HX''),
           DuneResults (Some ''dune-key'') (Str ''01HX''),
           NeynarUnfollow (Some ''neynar-key'') (Some ''signer-uuid'') [Num 7, Undefined]] \<and>
   map_option (requests_of \<circ> snd) (main (sample_runtime sample_axios) sample_env ''y'' []) =
     Some [DuneExecute (Some ''dune-key'') 3533118 (Num 3),
           DuneStatus (Some ''dune-key'') (Str ''01HX''),
           DuneStatus (Some ''dune-key'') (Str ''01HX''),
           DuneResults (Some ''dune-key'') (Str ''01HX'')]"
proof -
  have ne: "[Num 7, Undefined] \<noteq> []" by simp
  have yes: "''YEs'' \<in> {''yes'', ''yeS'', ''yEs'', ''yES'', ''Yes'', ''YeS'', ''YEs'', ''YES''}"
    by simp
  have no: "''y'' \<notin> {''yes'', ''yeS'', ''yEs'', ''yES'', ''Yes'', ''YeS'', ''YEs'', ''YES''}"
    by simp
  have one: "make_batches [Num 7, Undefined] = [[Num 7, Undefined]]"
    by (rule make_batches_small) simp_all
  from confirmation_accepts_any_case_of_yes[OF sample_env_present sample_fetch ne, of "''YEs''"] yes one
  have "map_option (requests_of \<circ> snd) (main (sample_runtime sample_axios) sample_env ''YEs'' []) =
     Some [DuneExecute (Some ''dune-key'') 3533118 (Num 3),
           DuneStatus (Some ''dune-key'') (Str ''01HX''),
           DuneStatus (Some ''dune-key'') (Str ''01HX''),
           DuneResults (Some ''dune-key'') (Str ''01HX''),
           NeynarUnfollow (Some ''neynar-key'') (Some ''signer-uuid'') [Num 7, Undefined]]"
    by (simp add: unfollow_request_def sample_env_def)
  moreover
  from confirmation_accepts_any_case_of_yes[OF sample_env_present sample_fetch ne, of "''y''"] no
  have "map_option (requests_of \<circ> snd) (main (sample_runtime sample_axios) sample_env ''y'' []) =
     Some [DuneExecute (Some ''dune-key'') 3533118 (Num 3),
           DuneStatus (Some ''dune-key'') (Str ''01HX''),
           DuneStatus (Some ''dune-key'') (Str ''01HX''),
           DuneResults (Some ''dune-key'') (Str ''01HX'')]"
    by simp
  ultimately show ?thesis by blast
qed

text \<open>
  The claim as the specification words it names three spellings only. The answer
  \<^verbatim>\<open>yEs\<close> is none of them, and the sample run with it sends the deletion request.
\<close>

theorem confirmation_exactly_three_spellings_counterexample:
  "''yEs'' \<notin> {''yes'', ''YES'', ''Yes''} \<and>
   map_option (requests_of \<circ> snd) (main (sample_runtime sample_axios) sample_env ''yEs'' []) =
     Some [DuneExecute (Some ''dune-key'') 3533118 (Num 3),
           DuneStatus (Some ''dune-key'') (Str ''01HX''),
           DuneStatus (Some ''dune-key'') (Str ''01HX''),
           DuneResults (Some ''dune-key'') (Str ''01HX''),
           NeynarUnfollow (Some ''neynar-key'') (Some ''signer-uuid'') [Num 7, Undefined]]"
proof
  show "''yEs'' \<notin> {''yes'', ''YES'', ''Yes''}" by simp
  show "map_option (requests_of \<circ> snd) (main (sample_runtime sample_axios) sample_env ''yEs'' []) =
     Some [DuneExecute (Some ''dune-key'') 3533118 (Num 3),
           DuneStatus (Some ''dune-key'') (Str ''01HX''),
           DuneStatus (Some ''dune-key'') (Str ''01HX''),
           DuneResults (Some ''dune-key'') (Str ''01HX''),
           NeynarUnfollow (Some ''neynar-key'') (Some ''signer-uuid'') [Num 7, Undefined]]"
    by code_simp
qed

section \<open>The projection of the result rows\<close>









section \<open>The startup check\<close>

lemma poll_status_extends:
  assumes "poll_status rt ev eid tr = Some y"
  shows "\<exists>evs. snd y = tr @ evs"
proof (rule poll_status.raw_induct[where P = "\<lambda>rt ev eid tr y. \<exists>evs. snd y = tr @ evs", OF _ assms])
  fix poll :: "runtime \<Rightarrow> env \<Rightarrow> jsval \<Rightarrow> trace \<Rightarrow> ((error + unit) \<times> trace) option"
  fix rt :: runtime and ev :: env and eid :: jsval and tr :: trace
    and y :: "(error + unit) \<times> trace"
  let ?req = "DuneStatus (DUNE_API_KEY ev) eid"
  assume IH: "\<And>rt ev eid tr y. poll rt ev eid tr = Some y \<Longrightarrow> \<exists>evs. snd y = tr @ evs"
  assume body:
    "(case http rt ?req (tr @ [Sleep 3000]) of
        (Inl e, tr1) \<Rightarrow> Some (Inl e, tr1)
      | (Inr statusResponse, tr1) \<Rightarrow>
          (case get_prop (data statusResponse) ''state'' of
             Inl e \<Rightarrow> Some (Inl e, tr1)
           | Inr state \<Rightarrow>
               if state = Str ''QUERY_STATE_FAILED''
               then (case get_prop (data statusResponse) ''error'' of
                       Inl e \<Rightarrow> Some (Inl e, tr1)
                     | Inr err \<Rightarrow> Some (Inl (Error [S ''Dune query failed: '', V err]), tr1))
               else if state \<noteq> Str ''QUERY_STATE_COMPLETED''
                    then poll rt ev eid (tr1 @ [Log INFO [S ''Query state: '', V state, S ''...'']])
                    else Some (Inr (), tr1 @ [Log INFO [S ''Query state: '', V state, S ''...'']]))) =
     Some y"
  show "\<exists>evs. snd y = tr @ evs"
  proof (cases "axios rt (length (requests_of (tr @ [Sleep 3000]))) ?req")
    case (Inl e)
    with body show ?thesis by (auto simp: http_def)
  next
    case (Inr resp)
    show ?thesis
    proof (cases "get_prop (data resp) ''state''")
      case (Inl e)
      with Inr body show ?thesis by (auto simp: http_def)
    next
      case st: (Inr state)
      show ?thesis
      proof (cases "state = Str ''QUERY_STATE_FAILED''")
        case True
        with Inr st body show ?thesis by (auto simp: http_def split: sum.splits)
      next
        case False
        show ?thesis
        proof (cases "state = Str ''QUERY_STATE_COMPLETED''")
          case True
          with Inr st body show ?thesis by (auto simp: http_def)
        next
          case nc: False
          let ?round = "[Sleep 3000, Request ?req, Log INFO [S ''Query state: '', V state, S ''...'']]"
          from nc False Inr st body have "poll rt ev eid (tr @ ?round) = Some y"
            by (simp add: http_def)
          from IH[OF this] obtain evs where "snd y = (tr @ ?round) @ evs" by blast
          then have "snd y = tr @ (?round @ evs)" by simp
          then show ?thesis by blast
        qed
      qed
    qed
  qed
qed

lemma start_execution_shape:
  "\<exists>evs. snd (start_execution rt ev tr) = tr @ Request (execute_request rt ev) # evs \<and>
         requests_of evs = []"
  by (auto simp: start_execution_def http_def execute_request_def split: sum.splits)

lemma fetch_results_extends: "\<exists>evs. snd (fetch_results rt ev eid tr) = tr @ evs"
  by (auto simp: fetch_results_def http_def split: sum.splits)

lemma fetch_try_prefix:
  assumes "fetch_try rt ev tr = Some y"
  shows "\<exists>evs. snd y = tr @ Request (execute_request rt ev) # evs"
proof -
  from start_execution_shape[of rt ev tr] obtain evs0 where
    s: "snd (start_execution rt ev tr) = tr @ Request (execute_request rt ev) # evs0"
    by blast
  show ?thesis
  proof (cases "start_execution rt ev tr")
    case (Pair x tr1)
    with s have tr1: "tr1 = tr @ Request (execute_request rt ev) # evs0" by simp
    show ?thesis
    proof (cases x)
      case (Inl e)
      with Pair assms tr1 show ?thesis by (auto simp: fetch_try_def)
    next
      case (Inr eid)
      show ?thesis
      proof (cases "poll_status rt ev eid tr1")
        case None
        with Pair Inr assms show ?thesis by (simp add: fetch_try_def)
      next
        case (Some p)
        from poll_status_extends[OF Some] obtain evs1 where p: "snd p = tr1 @ evs1" by blast
        show ?thesis
        proof (cases "fst p")
          case (Inl e)
          with Pair Inr Some assms have "y = (Inl e, snd p)"
            by (cases p) (simp add: fetch_try_def)
          with p tr1 show ?thesis by simp
        next
          case r: (Inr u)
          with Pair Inr Some assms have y: "y = fetch_results rt ev eid (snd p)"
            by (cases p) (simp add: fetch_try_def)
          from fetch_results_extends[of rt ev eid "snd p"] obtain evs2 where
            "snd (fetch_results rt ev eid (snd p)) = snd p @ evs2" by blast
          with y p tr1 have "snd y = tr @ Request (execute_request rt ev) # (evs0 @ evs1 @ evs2)"
            by simp
          then show ?thesis by blast
        qed
      qed
    qed
  qed
qed

lemma fetchFidsToUnfollow_prefix:
  assumes "fetchFidsToUnfollow rt ev tr = Some (fids, tr1)"
  shows "\<exists>evs. tr1 = tr @ executing_line ev # Request (execute_request rt ev) # evs"
proof (cases "fetch_try rt ev (tr @ [executing_line ev])")
  case None
  with assms show ?thesis by (simp add: fetchFidsToUnfollow_def)
next
  case (Some y)
  from fetch_try_prefix[OF Some] obtain evs where
    y: "snd y = (tr @ [executing_line ev]) @ Request (execute_request rt ev) # evs" by blast
  show ?thesis
  proof (cases "fst y")
    case (Inl e)
    with Some assms have "tr1 = snd y @ caught_lines e"
      by (cases y) (auto simp: fetchFidsToUnfollow_def)
    with y have "tr1 = tr @ executing_line ev # Request (execute_request rt ev) # (evs @ caught_lines e)"
      by simp
    then show ?thesis by blast
  next
    case (Inr fs)
    with Some assms have "tr1 = snd y"
      by (cases y) (auto simp: fetchFidsToUnfollow_def)
    with y show ?thesis by simp
  qed
qed

lemma main_returns_normally:
  assumes "\<not> env_missing ev" and "main rt ev answer tr = Some (r, tr')"
  shows "r = Inr () \<and>
         (\<exists>evs. tr' = tr @ [banner, executing_line ev, Request (execute_request rt ev)] @ evs)"
proof (cases "fetchFidsToUnfollow rt ev (tr @ [banner])")
  case None
  with assms show ?thesis by (simp add: main_def)
next
  case (Some p)
  obtain fids tr1 where p: "p = (fids, tr1)" by (cases p)
  from fetchFidsToUnfollow_prefix[OF Some[unfolded p]] obtain evs where
    tr1: "tr1 = (tr @ [banner]) @ executing_line ev # Request (execute_request rt ev) # evs"
    by blast
  show ?thesis
  proof (cases "fids = []")
    case True
    with assms Some p have
      "r = Inr ()" and
      "tr' = tr1 @ [Log INFO [S ''No FIDs flagged for unfollowing based on the Dune query.'']]"
      by (simp_all add: main_def)
    with tr1 show ?thesis by simp
  next
    case False
    from main_after_fetch[OF assms(1) Some[unfolded p] False, of answer] assms(2)
    have m: "Some (r, tr') =
           (if toLowerCase answer = ''yes''
            then Some (unfollowFids rt ev fids (tr1 @ confirmation_lines fids))
            else Some (Inr (), tr1 @ confirmation_lines fids @
                               [Log INFO [S ''Unfollow action cancelled by user.'']]))"
      by simp
    show ?thesis
    proof (cases "toLowerCase answer = ''yes''")
      case True
      from unfollowFids_returns[of rt ev fids "tr1 @ confirmation_lines fids"] obtain evs' where
        "unfollowFids rt ev fids (tr1 @ confirmation_lines fids) =
           (Inr (), (tr1 @ confirmation_lines fids) @ evs')" by blast
      with m True have "r = Inr ()" and "tr' = (tr1 @ confirmation_lines fids) @ evs'"
        by simp_all
      with tr1 show ?thesis by simp
    next
      case False
      with m have "r = Inr ()" and
        "tr' = tr1 @ confirmation_lines fids @ [Log INFO [S ''Unfollow action cancelled by user.'']]"
        by simp_all
      with tr1 show ?thesis by simp
    qed
  qed
qed

lemma main_rejected_submission:
  assumes "\<not> env_missing ev"
    and "axios rt (length (requests_of tr)) (execute_request rt ev) = Inl e"
  shows "main rt ev answer tr =
           Some (Inr (), tr @ [banner, executing_line ev, Request (execute_request rt ev),
                               Log ERROR [S ''Error fetching data from Dune API.''],
                               Log ERROR (error_detail e),
                               Log INFO [S ''No FIDs flagged for unfollowing based on the Dune query.'']])"
proof -
  have "axios rt (length (requests_of ((tr @ [banner]) @ [executing_line ev]))) (execute_request rt ev) = Inl e"
    using assms(2) by simp
  from fetch_try_rejected_submission[OF this]
  have "fetch_try rt ev ((tr @ [banner]) @ [executing_line ev]) =
          Some (Inl e, (tr @ [banner]) @ [executing_line ev, Request (execute_request rt ev)])"
    by simp
  from fetch_caught[OF this]
  have "fetchFidsToUnfollow rt ev (tr @ [banner]) =
          Some ([], (tr @ [banner]) @ [executing_line ev, Request (execute_request rt ev)] @ caught_lines e)" .
  with assms(1) show ?thesis by (simp add: main_def)
qed

text \<open>
  C10. When the four variables are non-empty strings, whatever they contain, the
  startup check passes; step 1 of the Query Runner sends the submission with
  \<^verbatim>\<open>Number(TARGET_FID)\<close> as the query parameter, whatever the conversion gives (\<open>NaN\<close>
  for a string that is not numeric); every run of the workflow that returns does so
  without an error, after the banner, the first log line and that submission; and when
  the service rejects the submission, the workflow returns, without an error, after
  the error lines of the Query Runner and the line that nothing was flagged.
\<close>

theorem startup_check_tests_presence_only:
  assumes "DUNE_API_KEY ev = Some dune" and "dune \<noteq> []"
    and "NEYNAR_API_KEY ev = Some neynar" and "neynar \<noteq> []"
    and "FARCASTER_SIGNER_UUID ev = Some signer" and "signer \<noteq> []"
    and "TARGET_FID ev = Some target" and "target \<noteq> []"
  shows "\<not> env_missing ev \<and>
         requests_of (snd (start_execution rt ev tr0)) =
           requests_of tr0 @ [DuneExecute (Some dune) DUNE_QUERY_ID (Number rt (Str target))] \<and>
         (\<forall>r tr'. main rt ev answer tr = Some (r, tr') \<longrightarrow>
            r = Inr () \<and>
            (\<exists>evs. tr' = tr @ [banner, executing_line ev,
                               Request (DuneExecute (Some dune) DUNE_QUERY_ID (Number rt (Str target)))]
                          @ evs)) \<and>
         (\<forall>e. axios rt (length (requests_of tr))
                 (DuneExecute (Some dune) DUNE_QUERY_ID (Number rt (Str target))) = Inl e \<longrightarrow>
            main rt ev answer tr =
              Some (Inr (), tr @ [banner, executing_line ev,
                                  Request (DuneExecute (Some dune) DUNE_QUERY_ID (Number rt (Str target))),
                                  Log ERROR [S ''Error fetching data from Dune API.''],
                                  Log ERROR (error_detail e),
                                  Log INFO [S ''No FIDs flagged for unfollowing based on the Dune query.'']]))"
proof -
  have present: "\<not> env_missing ev"
    using assms by (simp add: env_missing_def)
  have req: "execute_request rt ev = DuneExecute (Some dune) DUNE_QUERY_ID (Number rt (Str target))"
    using assms(1,7) by (simp add: execute_request_def)
  from start_execution_shape[of rt ev tr0] obtain evs where
    "snd (start_execution rt ev tr0) = tr0 @ Request (execute_request rt ev) # evs"
    and "requests_of evs = []"
    by blast
  then have "requests_of (snd (start_execution rt ev tr0)) =
               requests_of tr0 @ [execute_request rt ev]"
    by simp
  with present main_returns_normally[OF present, of rt answer tr]
    main_rejected_submission[OF present, of rt tr _ answer]
  show ?thesis
    unfolding req by blast
qed

text \<open>
  The sample run with \<^verbatim>\<open>TARGET_FID=abc\<close>, which the sample conversion takes to \<open>NaN\<close>,
  against the sample service and against one that rejects the submission.
\<close>

lemma sample_main_returns:
  "main (sample_runtime sample_axios) (sample_env\<lparr>TARGET_FID := Some ''abc''\<rparr>) ''no'' [] \<noteq> None"
  by code_simp

theorem startup_check_tests_presence_only_witness:
  "\<not> env_missing (sample_env\<lparr>TARGET_FID := Some ''abc''\<rparr>) \<and>
   requests_of (snd (start_execution (sample_runtime sample_axios)
                       (sample_env\<lparr>TARGET_FID := Some ''abc''\<rparr>) [])) =
     [DuneExecute (Some ''dune-key'') DUNE_QUERY_ID NaN] \<and>
   (\<exists>evs. main (sample_runtime sample_axios) (sample_env\<lparr>TARGET_FID := Some ''abc''\<rparr>) ''no'' [] =
      Some (Inr (), [banner, executing_line (sample_env\<lparr>TARGET_FID := Some ''abc''\<rparr>),
                     Request (DuneExecute (Some ''dune-key'') DUNE_QUERY_ID NaN)] @ evs)) \<and>
   main (sample_runtime (replying_at 0 (Inl server_error) sample_axios))
        (sample_env\<lparr>TARGET_FID := Some ''abc''\<rparr>) ''no'' [] =
     Some (Inr (), [banner, executing_line (sample_env\<lparr>TARGET_FID := Some ''abc''\<rparr>),
                    Request (DuneExecute (Some ''dune-key'') DUNE_QUERY_ID NaN),
                    Log ERROR [S ''Error fetching data from Dune API.''],
                    Log ERROR (error_detail server_error),
                    Log INFO [S ''No FIDs flagged for unfollowing based on the Dune query.'']])"
proof -
  let ?rt = "sample_runtime sample_axios"
  let ?rt' = "sample_runtime (replying_at 0 (Inl server_error) sample_axios)"
  let ?ev = "sample_env\<lparr>TARGET_FID := Some ''abc''\<rparr>"
  have nan: "Number ?rt (Str ''abc'') = NaN" "Number ?rt' (Str ''abc'') = NaN"
    by (simp_all add: sample_runtime_def)
  have env: "DUNE_API_KEY ?ev = Some ''dune-key''" "''dune-key'' \<noteq> []"
    "NEYNAR_API_KEY ?ev = Some ''neynar-key''" "''neynar-key'' \<noteq> []"
    "FARCASTER_SIGNER_UUID ?ev = Some ''signer-uuid''" "''signer-uuid'' \<noteq> []"
    "TARGET_FID ?ev = Some ''abc''" "''abc'' \<noteq> []"
    by (simp_all add: sample_env_def)
  note accepted_run = startup_check_tests_presence_only[OF env, of ?rt "[]" "''no''" "[]", unfolded nan]
  note rejected_run = startup_check_tests_presence_only[OF env, of ?rt' "[]" "''no''" "[]", unfolded nan]
  have "axios ?rt' (length (requests_of [])) (DuneExecute (Some ''dune-key'') DUNE_QUERY_ID NaN) =
          Inl server_error"
    by (simp add: sample_runtime_def replying_at_def)
  with rejected_run have
    "main ?rt' ?ev ''no'' [] =
       Some (Inr (), [] @ [banner, executing_line ?ev,
                           Request (DuneExecute (Some ''dune-key'') DUNE_QUERY_ID NaN),
                           Log ERROR [S ''Error fetching data from Dune API.''],
                           Log ERROR (error_detail server_error),
                           Log INFO [S ''No FIDs flagged for unfollowing based on the Dune query.'']])"
    by blast
  moreover from sample_main_returns obtain r tr' where "main ?rt ?ev ''no'' [] = Some (r, tr')"
    by auto
  ultimately show ?thesis using accepted_run by auto
qed

end
